theory Spec2Isabelle
  imports Main "HOL-Library.Word"
begin

section \<open>Strings, numbers and byte buffers of the host language\<close>

text \<open>
  A JavaScript string is a sequence of UTF-16 code units, a \<open>Uint8Array\<close> a sequence of
  bytes. String literals of the source are written \<open>js ''...''\<close>.
\<close>

type_synonym code_unit = "16 word"
type_synonym jsstring = "code_unit list"
type_synonym byte = "8 word"

definition js :: "string \<Rightarrow> jsstring" where
  "js s = map of_char s"

text \<open>\<open>String.prototype.startsWith\<close>, \<open>endsWith\<close>, \<open>includes\<close> and \<open>substring(n)\<close>.\<close>

fun startsWith :: "jsstring \<Rightarrow> jsstring \<Rightarrow> bool" where
  "startsWith s [] = True"
| "startsWith [] (p # ps) = False"
| "startsWith (c # cs) (p # ps) = (c = p \<and> startsWith cs ps)"

definition endsWith :: "jsstring \<Rightarrow> jsstring \<Rightarrow> bool" where
  "endsWith s p = startsWith (rev s) (rev p)"

fun includesStr :: "jsstring \<Rightarrow> jsstring \<Rightarrow> bool" where
  "includesStr [] p = (p = [])"
| "includesStr (c # cs) p = (startsWith (c # cs) p \<or> includesStr cs p)"

definition substring :: "jsstring \<Rightarrow> nat \<Rightarrow> jsstring" where
  "substring s n = drop n s"

text \<open>
  \<open>s.split(sep)\<close> for a one-character separator: the fields between the separators, in
  order; the empty string gives one empty field.
\<close>

fun splitStr :: "code_unit \<Rightarrow> jsstring \<Rightarrow> jsstring list" where
  "splitStr sep [] = [[]]"
| "splitStr sep (c # cs) =
     (if c = sep then [] # splitStr sep cs
      else (case splitStr sep cs of
              [] \<Rightarrow> [[c]]
            | f # fs \<Rightarrow> (c # f) # fs))"

text \<open>
  The code units that \<open>trim\<close> and \<open>parseInt\<close> skip: ECMAScript's WhiteSpace (TAB, VT, FF,
  the space separators, U+FEFF) and LineTerminator (LF, CR, U+2028, U+2029).
\<close>

definition isLineTerminator :: "code_unit \<Rightarrow> bool" where
  "isLineTerminator c = (c = 0x0A \<or> c = 0x0D \<or> c = 0x2028 \<or> c = 0x2029)"

definition isWhiteSpace :: "code_unit \<Rightarrow> bool" where
  "isWhiteSpace c =
     (c = 0x09 \<or> c = 0x0B \<or> c = 0x0C \<or> c = 0x20 \<or> c = 0xA0 \<or> c = 0x1680
      \<or> (0x2000 \<le> c \<and> c \<le> 0x200A) \<or> c = 0x202F \<or> c = 0x205F \<or> c = 0x3000
      \<or> c = 0xFEFF \<or> isLineTerminator c)"

definition trimStart :: "jsstring \<Rightarrow> jsstring" where
  "trimStart s = dropWhile isWhiteSpace s"

definition trimEnd :: "jsstring \<Rightarrow> jsstring" where
  "trimEnd s = rev (dropWhile isWhiteSpace (rev s))"

definition trim :: "jsstring \<Rightarrow> jsstring" where
  "trim s = trimEnd (trimStart s)"

text \<open>
  The Number values the program handles are results of \<open>parseInt\<close>, hence \<open>NaN\<close>, an
  infinity, or a double whose value is an integer: \<open>Num n\<close> is the finite double of value
  \<open>n\<close> (positive zero for \<open>n = 0\<close>), \<open>NegZero\<close> is \<open>-0\<close>.
\<close>

datatype jsnum = NaN | Num int | NegZero | PosInfinity | NegInfinity

text \<open>
  The Number value of a positive integer: the integer itself below \<open>2^53\<close>; above, the
  nearest multiple of \<open>2^e\<close>, \<open>e\<close> the number of bits beyond 53, a tie going to the even
  significand; and no finite value (\<open>None\<close>) when that is \<open>2^1024\<close>.
\<close>

fun bitLength :: "nat \<Rightarrow> nat" where
  "bitLength n = (if n = 0 then 0 else Suc (bitLength (n div 2)))"

definition nearestDouble :: "nat \<Rightarrow> nat option" where
  "nearestDouble n =
     (if n < 0x20000000000000 then Some n
      else (let e = bitLength n - 53;
                q = n div 2 ^ e;
                r = n mod 2 ^ e;
                q' = (if 2 ^ e < 2 * r \<or> (2 * r = 2 ^ e \<and> odd q) then q + 1 else q)
            in if 2 ^ 1024 \<le> q' * 2 ^ e then None else Some (q' * 2 ^ e)))"

definition numberValue :: "bool \<Rightarrow> nat \<Rightarrow> jsnum" where
  "numberValue negative n =
     (if n = 0 then (if negative then NegZero else Num 0)
      else (case nearestDouble n of
              None \<Rightarrow> (if negative then NegInfinity else PosInfinity)
            | Some v \<Rightarrow> Num (if negative then - int v else int v)))"

definition isRadixDigit :: "nat \<Rightarrow> code_unit \<Rightarrow> bool" where
  "isRadixDigit R c =
     ((0x30 \<le> c \<and> c \<le> 0x39)
      \<or> (R = 16 \<and> ((0x41 \<le> c \<and> c \<le> 0x46) \<or> (0x61 \<le> c \<and> c \<le> 0x66))))"

definition digitValue :: "code_unit \<Rightarrow> nat" where
  "digitValue c =
     (if c \<le> 0x39 then unat c - 0x30
      else if c \<le> 0x46 then unat c - 0x41 + 10
      else unat c - 0x61 + 10)"

definition mathInt :: "nat \<Rightarrow> jsstring \<Rightarrow> nat" where
  "mathInt R Z = foldl (\<lambda>acc c. acc * R + digitValue c) 0 Z"

text \<open>
  \<open>parseInt(string)\<close> with no radix argument. \<open>parseIntDigits\<close> is what it reads: leading
  white space is skipped, a sign is read, a \<open>0x\<close>/\<open>0X\<close> prefix selects radix 16, otherwise
  the radix is 10, and \<open>Z\<close> is the longest prefix of digits of that radix. The result is
  \<open>NaN\<close> when \<open>Z\<close> is empty, and otherwise the Number value of the integer \<open>Z\<close> denotes,
  with the sign: \<open>-0\<close> for a negative zero. Every digit of \<open>Z\<close> counts (the standard would
  let an implementation read the decimal digits after the 20th significant one as 0; the
  browsers with Web Bluetooth, the only ones the page runs in, convert the whole string).
\<close>

definition parseIntDigits :: "jsstring \<Rightarrow> bool \<times> nat \<times> jsstring" where
  "parseIntDigits inputString =
     (let S = trimStart inputString;
          negative = startsWith S (js ''-'');
          S1 = (if startsWith S (js ''+'') \<or> startsWith S (js ''-'') then tl S else S);
          hex = (startsWith S1 (js ''0x'') \<or> startsWith S1 (js ''0X''));
          R = (if hex then 16 else 10);
          S2 = (if hex then drop 2 S1 else S1)
      in (negative, R, takeWhile (isRadixDigit R) S2))"

definition parseInt :: "jsstring \<Rightarrow> jsnum" where
  "parseInt inputString =
     (case parseIntDigits inputString of
        (negative, R, Z) \<Rightarrow> if Z = [] then NaN else numberValue negative (mathInt R Z))"

section \<open>Module state\<close>

text \<open>
  The globals \<open>scanResults\<close> and \<open>evalDataRows\<close>, and the page elements the receive path
  writes: the \<open>deviceStatus\<close> element, the \<open>receivedLog\<close> text area and the console. The
  scan list and the evaluation table on the page are redrawn from the two globals
  (\<open>updateScanResultsDisplay\<close>, \<open>updateEvalTable\<close>) and hold nothing more than they do.

  A row of \<open>evalDataRows\<close> is \<open>Foot time lDist rDist lSpeed rSpeed asymmetry\<close> (type
  \<open>'foot'\<close>) or \<open>Back time lTilt rTilt asymmetry\<close> (type \<open>'back'\<close>).
\<close>

record scan_record =
  mac :: jsstring
  rssi :: jsnum
  name :: jsstring

datatype eval_row =
    Foot jsstring jsnum jsnum jsnum jsnum jsnum
  | Back jsstring jsnum jsnum jsnum

text \<open>
  \<open>statusHTML\<close>, one constructor for each template of \<open>updateDeviceStatus\<close> with the
  values interpolated into it; \<open>Blank\<close> is the empty string it starts as.
\<close>

datatype ble_icon = IconOk | IconReady | IconMulti | IconConn | IconDisconn | IconDefault

datatype status_html =
    Blank
  | BleMaster ble_icon jsstring
  | ScanFound jsstring jsstring
  | Success jsstring
  | DuplicateMac jsstring jsstring
  | DuplicateLocation jsstring jsstring
  | LocationNotAllowed jsstring jsstring
  | TypeFull jsstring jsstring
  | NoType
  | SlotFull jsstring
  | ErrorStatus jsstring
  | Other jsstring

text \<open>
  The lines \<open>logReceived\<close> appends: the parse failure, the payload with its time stamp, the
  note that a row was added to the table, the note that manual mode stopped; and the two
  warnings of \<open>handleEvalStopData\<close> on the console, with the message they print.
\<close>

datatype log_entry =
    LogParseFailed
  | LogPayload jsstring jsstring
  | LogEvalAdded
  | LogManTimeout

datatype console_entry =
    WarnEvalParseFailed jsstring
  | WarnEvalUnknownFormat jsstring

record state =
  scanResults :: "scan_record list"
  evalDataRows :: "eval_row list"
  deviceStatus :: status_html
  receivedLog :: "log_entry list"
  console :: "console_entry list"

text \<open>The state at page load, \<open>page\<close> being what the status element shows then.\<close>

definition initial :: "status_html \<Rightarrow> state" where
  "initial page = \<lparr>scanResults = [], evalDataRows = [], deviceStatus = page,
     receivedLog = [], console = []\<rparr>"

section \<open>Scan registry\<close>

text \<open>
  \<open>existing.rssi = rssi\<close> writes through the reference \<open>find\<close> returned: the first record
  of the array with that \<open>mac\<close> is the one changed.
\<close>

fun setFirstRssi :: "jsstring \<Rightarrow> jsnum \<Rightarrow> scan_record list \<Rightarrow> scan_record list" where
  "setFirstRssi m r [] = []"
| "setFirstRssi m r (x # xs) =
     (if mac x = m then x\<lparr>rssi := r\<rparr> # xs else x # setFirstRssi m r xs)"

definition addScanResult :: "jsstring \<Rightarrow> jsnum \<Rightarrow> jsstring \<Rightarrow> state \<Rightarrow> state" where
  "addScanResult m r n s =
     (case find (\<lambda>x. mac x = m) (scanResults s) of
        Some existing \<Rightarrow> s\<lparr>scanResults := setFirstRssi m r (scanResults s)\<rparr>
      | None \<Rightarrow> s\<lparr>scanResults := scanResults s @ [\<lparr>mac = m, rssi = r, name = n\<rparr>]\<rparr>)"

definition clearScanResults :: "state \<Rightarrow> state" where
  "clearScanResults s = s\<lparr>scanResults := []\<rparr>"

text \<open>A sequence of upserts, applied in order.\<close>

fun addScanResults :: "(jsstring \<times> jsnum \<times> jsstring) list \<Rightarrow> state \<Rightarrow> state" where
  "addScanResults [] s = s"
| "addScanResults ((m, r, n) # ups) s = addScanResults ups (addScanResult m r n s)"

section \<open>Framer\<close>

text \<open>
  \<open>new TextEncoder().encode(payload)\<close>: the string is read as Unicode scalar values, a
  surrogate code unit that is not part of a pair becoming U+FFFD, and each scalar value is
  written in UTF-8.
\<close>

definition isHighSurrogate :: "code_unit \<Rightarrow> bool" where
  "isHighSurrogate c = (0xD800 \<le> c \<and> c \<le> 0xDBFF)"

definition isLowSurrogate :: "code_unit \<Rightarrow> bool" where
  "isLowSurrogate c = (0xDC00 \<le> c \<and> c \<le> 0xDFFF)"

fun scalarValues :: "jsstring \<Rightarrow> nat list" where
  "scalarValues [] = []"
| "scalarValues [c] = [if isHighSurrogate c \<or> isLowSurrogate c then 0xFFFD else unat c]"
| "scalarValues (c # d # cs) =
     (if isHighSurrogate c \<and> isLowSurrogate d
      then (0x10000 + (unat c - 0xD800) * 0x400 + (unat d - 0xDC00)) # scalarValues cs
      else (if isHighSurrogate c \<or> isLowSurrogate c then 0xFFFD else unat c)
             # scalarValues (d # cs))"

text \<open>\<open>String.prototype.isWellFormed\<close>: no surrogate code unit outside a pair.\<close>

fun isWellFormed :: "jsstring \<Rightarrow> bool" where
  "isWellFormed [] = True"
| "isWellFormed [c] = (\<not> isHighSurrogate c \<and> \<not> isLowSurrogate c)"
| "isWellFormed (c # d # cs) =
     (if isHighSurrogate c then isLowSurrogate d \<and> isWellFormed cs
      else \<not> isLowSurrogate c \<and> isWellFormed (d # cs))"

text \<open>The Unicode scalar values: the code points that are not surrogates.\<close>

definition isScalarValue :: "nat \<Rightarrow> bool" where
  "isScalarValue cp = (cp < 0x110000 \<and> \<not> (0xD800 \<le> cp \<and> cp \<le> 0xDFFF))"

definition utf8Bytes :: "nat \<Rightarrow> byte list" where
  "utf8Bytes cp =
     (if cp < 0x80 then [of_nat cp]
      else if cp < 0x800 then [of_nat (0xC0 + cp div 0x40), of_nat (0x80 + cp mod 0x40)]
      else if cp < 0x10000 then
        [of_nat (0xE0 + cp div 0x1000), of_nat (0x80 + cp div 0x40 mod 0x40),
         of_nat (0x80 + cp mod 0x40)]
      else
        [of_nat (0xF0 + cp div 0x40000), of_nat (0x80 + cp div 0x1000 mod 0x40),
         of_nat (0x80 + cp div 0x40 mod 0x40), of_nat (0x80 + cp mod 0x40)])"

definition textEncode :: "jsstring \<Rightarrow> byte list" where
  "textEncode s = concat (map utf8Bytes (scalarValues s))"

text \<open>
  \<open>new TextDecoder().decode(bytes)\<close>: the UTF-8 decoder of the Encoding Standard in
  replacement mode (every error emits U+FFFD, a byte that ends a sequence early is read
  again as the start of the next one), a leading U+FEFF of the output is dropped, and the
  code points are written as UTF-16 code units. The masks and shifts of the standard are
  written arithmetically: \<open>byte & 0x1F\<close> is \<open>v mod 0x20\<close>, \<open>(cp << 6) | (byte & 0x3F)\<close>
  is \<open>cp * 0x40 + v mod 0x40\<close>.
\<close>

record utf8_decoder =
  codePoint :: nat
  bytesSeen :: nat
  bytesNeeded :: nat
  lowerBoundary :: nat
  upperBoundary :: nat

definition utf8Start :: utf8_decoder where
  "utf8Start = \<lparr>codePoint = 0, bytesSeen = 0, bytesNeeded = 0,
     lowerBoundary = 0x80, upperBoundary = 0xBF\<rparr>"

function utf8Decode :: "utf8_decoder \<Rightarrow> byte list \<Rightarrow> nat list" where
  "utf8Decode d [] = (if bytesNeeded d \<noteq> 0 then [0xFFFD] else [])"
| "utf8Decode d (b # bs) =
     (if bytesNeeded d = 0 then
        (if unat b \<le> 0x7F then unat b # utf8Decode d bs
         else if 0xC2 \<le> unat b \<and> unat b \<le> 0xDF then
           utf8Decode (d\<lparr>bytesNeeded := 1, codePoint := unat b mod 0x20\<rparr>) bs
         else if 0xE0 \<le> unat b \<and> unat b \<le> 0xEF then
           utf8Decode (d\<lparr>lowerBoundary := (if unat b = 0xE0 then 0xA0 else lowerBoundary d),
                         upperBoundary := (if unat b = 0xED then 0x9F else upperBoundary d),
                         bytesNeeded := 2, codePoint := unat b mod 0x10\<rparr>) bs
         else if 0xF0 \<le> unat b \<and> unat b \<le> 0xF4 then
           utf8Decode (d\<lparr>lowerBoundary := (if unat b = 0xF0 then 0x90 else lowerBoundary d),
                         upperBoundary := (if unat b = 0xF4 then 0x8F else upperBoundary d),
                         bytesNeeded := 3, codePoint := unat b mod 0x08\<rparr>) bs
         else 0xFFFD # utf8Decode d bs)
      else if unat b < lowerBoundary d \<or> upperBoundary d < unat b then
        0xFFFD # utf8Decode utf8Start (b # bs)
      else if bytesSeen d + 1 \<noteq> bytesNeeded d then
        utf8Decode (d\<lparr>lowerBoundary := 0x80, upperBoundary := 0xBF,
                      codePoint := codePoint d * 0x40 + unat b mod 0x40,
                      bytesSeen := bytesSeen d + 1\<rparr>) bs
      else (codePoint d * 0x40 + unat b mod 0x40) # utf8Decode utf8Start bs)"
  by pat_completeness auto
termination
  by (relation "measure (\<lambda>(d, bs). 2 * length bs + (if bytesNeeded d = 0 then 0 else 1))")
     (auto simp: utf8Start_def)

definition stripBOM :: "nat list \<Rightarrow> nat list" where
  "stripBOM cps = (case cps of [] \<Rightarrow> [] | c # cs \<Rightarrow> if c = 0xFEFF then cs else c # cs)"

definition codeUnits :: "nat \<Rightarrow> jsstring" where
  "codeUnits cp =
     (if cp < 0x10000 then [of_nat cp]
      else [of_nat (0xD800 + (cp - 0x10000) div 0x400),
            of_nat (0xDC00 + (cp - 0x10000) mod 0x400)])"

definition textDecode :: "byte list \<Rightarrow> jsstring" where
  "textDecode bytes = concat (map codeUnits (stripBOM (utf8Decode utf8Start bytes)))"

text \<open>
  \<open>buildPacket\<close> returns \<open>null\<close> after \<open>console.error('Payload too long:', ...)\<close> when the
  packet has more than 64 bytes: that is \<open>Inl (PayloadTooLong n)\<close>, \<open>n\<close> the length logged.
  \<open>parsePacket\<close> reads the whole buffer under the \<open>DataView\<close>.
\<close>

datatype error = PayloadTooLong nat | NotConnected | MissingMac | InvalidMac

definition CRLF :: jsstring where
  "CRLF = [0x0D, 0x0A]"

definition buildPacket :: "jsstring \<Rightarrow> error + byte list" where
  "buildPacket payload =
     (let payload' = (if \<not> endsWith payload CRLF then payload @ CRLF else payload);
          packet = textEncode payload'
      in if length packet > 64 then Inl (PayloadTooLong (length packet)) else Inr packet)"

definition parsePacket :: "byte list \<Rightarrow> jsstring" where
  "parsePacket buffer = trim (textDecode buffer)"

section \<open>Command builder\<close>

text \<open>
  \<open>toUpperCase\<close> maps each code point by the Unicode case tables, without context. On
  ASCII that is \<open>upperAscii\<close>; the table for the rest is not part of the program and is the
  parameter \<open>ucd\<close>, applied to each maximal run of non-ASCII code units.
\<close>

definition upperAscii :: "code_unit \<Rightarrow> code_unit" where
  "upperAscii c = (if 0x61 \<le> c \<and> c \<le> 0x7A then c - 0x20 else c)"

definition upperRun :: "(jsstring \<Rightarrow> jsstring) \<Rightarrow> jsstring \<Rightarrow> jsstring" where
  "upperRun ucd run = (if run = [] then [] else ucd run)"

fun toUpperCaseFrom :: "(jsstring \<Rightarrow> jsstring) \<Rightarrow> jsstring \<Rightarrow> jsstring \<Rightarrow> jsstring" where
  "toUpperCaseFrom ucd run [] = upperRun ucd run"
| "toUpperCaseFrom ucd run (c # cs) =
     (if c < 0x80 then upperRun ucd run @ upperAscii c # toUpperCaseFrom ucd [] cs
      else toUpperCaseFrom ucd (run @ [c]) cs)"

definition toUpperCase :: "(jsstring \<Rightarrow> jsstring) \<Rightarrow> jsstring \<Rightarrow> jsstring" where
  "toUpperCase ucd s = toUpperCaseFrom ucd [] s"

text \<open>\<open>mac.replace(/[:-]/g, '')\<close> and \<open>/^[0-9A-F]+$/.test(cleanMac)\<close>.\<close>

definition removeSeparators :: "jsstring \<Rightarrow> jsstring" where
  "removeSeparators s = filter (\<lambda>c. c \<noteq> 0x3A \<and> c \<noteq> 0x2D) s"

definition isUpperHex :: "code_unit \<Rightarrow> bool" where
  "isUpperHex c = ((0x30 \<le> c \<and> c \<le> 0x39) \<or> (0x41 \<le> c \<and> c \<le> 0x46))"

definition allUpperHex :: "jsstring \<Rightarrow> bool" where
  "allUpperHex s = (s \<noteq> [] \<and> list_all isUpperHex s)"

text \<open>
  \<open>sendCommand\<close> up to the write: the packet handed to \<open>writeValue\<close>, or the alert.
  \<open>connected\<close> stands for \<open>isConnected && writeCharacteristic\<close>.
\<close>

definition sendCommand :: "bool \<Rightarrow> jsstring \<Rightarrow> error + byte list" where
  "sendCommand connected command =
     (if \<not> connected then Inl NotConnected
      else buildPacket (js ''$'' @ command))"

text \<open>
  \<open>sendConnectDevice\<close>, with the values of the \<open>connMac\<close> and \<open>connLocation\<close> fields as
  arguments: the command it passes to \<open>sendCommand\<close>, or the alert it raises
  (\<open>MissingMac\<close> for 'Please enter MAC address', \<open>InvalidMac\<close> for 'Invalid MAC address').
\<close>

definition sendConnectDevice ::
    "(jsstring \<Rightarrow> jsstring) \<Rightarrow> jsstring \<Rightarrow> jsstring \<Rightarrow> error + jsstring" where
  "sendConnectDevice ucd connMac location =
     (let mac = toUpperCase ucd (trim connMac) in
      if mac = [] then Inl MissingMac
      else (let cleanMac = removeSeparators mac in
            if length cleanMac \<noteq> 12 \<or> \<not> allUpperHex cleanMac then Inl InvalidMac
            else Inr (js ''DM:CONN:'' @ cleanMac @ js '':'' @ location)))"

section \<open>Response classifier\<close>

text \<open>\<open>parts.length > i ? parts[i] : dflt\<close>.\<close>

definition part :: "jsstring list \<Rightarrow> nat \<Rightarrow> jsstring \<Rightarrow> jsstring" where
  "part parts i dflt = (if length parts > i then parts ! i else dflt)"

definition bleIcon :: "jsstring \<Rightarrow> ble_icon" where
  "bleIcon rawResp =
     (if rawResp = js ''+OK'' then IconOk
      else if rawResp = js ''+READY'' then IconReady
      else if rawResp = js ''+MULTI'' then IconMulti
      else if startsWith rawResp (js ''+CONN'') then IconConn
      else if startsWith rawResp (js ''+DISCONN'') then IconDisconn
      else IconDefault)"

definition updateDeviceStatus :: "jsstring \<Rightarrow> state \<Rightarrow> state" where
  "updateDeviceStatus message s =
     (if startsWith message (js ''#BLE:RAW:'') then
        (let rawResp = substring message (length (js ''#BLE:RAW:''))
         in s\<lparr>deviceStatus := BleMaster (bleIcon rawResp) rawResp\<rparr>)
      else if startsWith message (js ''#DM:SCAN:FOUND:'') then
        (let data = substring message (length (js ''#DM:SCAN:FOUND:''));
             parts = splitStr 0x2C data
         in if length parts \<ge> 3 then
              (addScanResult (parts ! 0) (parseInt (parts ! 2)) (parts ! 1) s)
                \<lparr>deviceStatus := ScanFound (parts ! 1) (parts ! 0)\<rparr>
            else s\<lparr>deviceStatus := Blank\<rparr>)
      else if includesStr message (js ''INIT_OK'') \<or> includesStr message (js ''SCAN_STARTED'')
      then (clearScanResults s)\<lparr>deviceStatus := Success message\<rparr>
      else if includesStr message (js ''DUP_MAC:'') then
        (let parts = splitStr 0x3A message
         in s\<lparr>deviceStatus :=
              DuplicateMac (part parts 2 (js ''unknown'')) (part parts 3 (js ''unknown''))\<rparr>)
      else if includesStr message (js ''DUP_LOC:'') then
        (let parts = splitStr 0x3A message
         in s\<lparr>deviceStatus :=
              DuplicateLocation (part parts 2 (js ''unknown'')) (part parts 3 (js ''unknown''))\<rparr>)
      else if includesStr message (js ''LOC_NOT_ALLOWED:'') then
        (let parts = splitStr 0x3A message
         in s\<lparr>deviceStatus :=
              LocationNotAllowed (part parts 2 (js ''unknown'')) (part parts 3 (js ''unknown''))\<rparr>)
      else if includesStr message (js ''TYPE_FULL:'') then
        (let parts = splitStr 0x3A message
         in s\<lparr>deviceStatus := TypeFull (part parts 2 (js ''?'')) (part parts 3 (js ''?''))\<rparr>)
      else if includesStr message (js ''NO_TYPE'') then s\<lparr>deviceStatus := NoType\<rparr>
      else if includesStr message (js ''SLOT_FULL:'') then
        (let parts = splitStr 0x3A message
         in s\<lparr>deviceStatus := SlotFull (part parts 2 (js ''8''))\<rparr>)
      else if startsWith message (js ''#ERR'') then s\<lparr>deviceStatus := ErrorStatus message\<rparr>
      else if startsWith message (js ''#'') then s\<lparr>deviceStatus := Success message\<rparr>
      else s\<lparr>deviceStatus := Other message\<rparr>)"

text \<open>The substring tests of \<open>updateDeviceStatus\<close>, taken together.\<close>

definition containsStatusToken :: "jsstring \<Rightarrow> bool" where
  "containsStatusToken message =
     (includesStr message (js ''INIT_OK'') \<or> includesStr message (js ''SCAN_STARTED'')
      \<or> includesStr message (js ''DUP_MAC:'') \<or> includesStr message (js ''DUP_LOC:'')
      \<or> includesStr message (js ''LOC_NOT_ALLOWED:'') \<or> includesStr message (js ''TYPE_FULL:'')
      \<or> includesStr message (js ''NO_TYPE'') \<or> includesStr message (js ''SLOT_FULL:''))"

section \<open>Evaluation history\<close>

text \<open>
  \<open>message.match(/#EVAL:STOP:STOP_OK:(.+)/)\<close>: the first place where the marker is
  followed by a character other than a line terminator; the group is the text from there
  up to the next line terminator or the end.
\<close>

fun evalStopMatch :: "jsstring \<Rightarrow> jsstring option" where
  "evalStopMatch [] = None"
| "evalStopMatch (c # cs) =
     (if startsWith (c # cs) (js ''#EVAL:STOP:STOP_OK:'')
         \<and> takeWhile (\<lambda>x. \<not> isLineTerminator x)
              (drop (length (js ''#EVAL:STOP:STOP_OK:'')) (c # cs)) \<noteq> []
      then Some (takeWhile (\<lambda>x. \<not> isLineTerminator x)
                   (drop (length (js ''#EVAL:STOP:STOP_OK:'')) (c # cs)))
      else evalStopMatch cs)"

definition handleEvalStopData :: "jsstring \<Rightarrow> jsstring \<Rightarrow> state \<Rightarrow> state" where
  "handleEvalStopData timestamp message s =
     (case evalStopMatch message of
        None \<Rightarrow> s\<lparr>console := console s @ [WarnEvalParseFailed message]\<rparr>
      | Some data \<Rightarrow>
          (let parts = map (\<lambda>f. parseInt (trim f)) (splitStr 0x2C data)
           in if length parts = 5 then
                s\<lparr>evalDataRows := evalDataRows s
                     @ [Foot timestamp (parts ! 0) (parts ! 1) (parts ! 2) (parts ! 3) (parts ! 4)],
                  receivedLog := receivedLog s @ [LogEvalAdded]\<rparr>
              else if length parts = 3 then
                s\<lparr>evalDataRows := evalDataRows s
                     @ [Back timestamp (parts ! 0) (parts ! 1) (parts ! 2)],
                  receivedLog := receivedLog s @ [LogEvalAdded]\<rparr>
              else s\<lparr>console := console s @ [WarnEvalUnknownFormat message]\<rparr>))"

definition clearEvalData :: "state \<Rightarrow> state" where
  "clearEvalData s = s\<lparr>evalDataRows := []\<rparr>"

section \<open>Receive path\<close>

text \<open>
  \<open>handleNotification\<close>, with the buffer of \<open>event.target.value\<close> and the two clock
  readings (\<open>new Date().toLocaleTimeString()\<close> here and in \<open>handleEvalStopData\<close>) as
  arguments.
\<close>

definition handleNotification :: "jsstring \<Rightarrow> jsstring \<Rightarrow> byte list \<Rightarrow> state \<Rightarrow> state" where
  "handleNotification timestamp evalTimestamp buffer s =
     (let payload = parsePacket buffer in
      if payload = [] then s\<lparr>receivedLog := receivedLog s @ [LogParseFailed]\<rparr>
      else
        (let s1 = s\<lparr>receivedLog := receivedLog s @ [LogPayload timestamp payload]\<rparr>;
             s2 = updateDeviceStatus payload s1;
             s3 = (if startsWith payload (js ''#EVAL:STOP:STOP_OK:'')
                   then handleEvalStopData evalTimestamp payload s2 else s2)
         in if startsWith payload (js ''#MAN:TIMEOUT'')
            then s3\<lparr>receivedLog := receivedLog s3 @ [LogManTimeout]\<rparr> else s3))"

section \<open>Unfolding rules and basic facts\<close>

text \<open>
  The decoder is unfolded one step at a time in the proofs about it; the collections below
  are the equations that evaluate the model on a concrete input.
\<close>

declare utf8Decode.simps [simp del]
declare bitLength.simps [simp del]

lemmas str_defs = js_def CRLF_def endsWith_def substring_def isLineTerminator_def isWhiteSpace_def
  trimStart_def trimEnd_def trim_def isRadixDigit_def digitValue_def mathInt_def
  bitLength.simps nearestDouble_def numberValue_def parseIntDigits_def parseInt_def

lemmas utf_defs = isHighSurrogate_def isLowSurrogate_def utf8Bytes_def textEncode_def utf8Start_def
  utf8Decode.simps stripBOM_def codeUnits_def textDecode_def buildPacket_def parsePacket_def

lemmas cmd_defs = upperAscii_def upperRun_def toUpperCase_def removeSeparators_def
  isUpperHex_def allUpperHex_def sendCommand_def sendConnectDevice_def

lemmas cls_defs = part_def bleIcon_def updateDeviceStatus_def handleEvalStopData_def
  handleNotification_def addScanResult_def clearScanResults_def initial_def

text \<open>
  \<open>parseInt\<close> gives \<open>NaN\<close> only for want of a digit; an integer below \<open>2^53\<close> is its own
  Number value, and \<open>2^1024\<close> is beyond the finite ones.
\<close>

lemma bitLength_less: "n < 2 ^ bitLength n"
proof (induction n rule: bitLength.induct)
  case (1 n)
  show ?case
  proof (cases "n = 0")
    case True
    then show ?thesis by (simp add: bitLength.simps)
  next
    case False
    with 1 have "n div 2 < 2 ^ bitLength (n div 2)"
      by simp
    then have "n < 2 * 2 ^ bitLength (n div 2)"
      by linarith
    moreover have "bitLength n = Suc (bitLength (n div 2))"
      using False by (subst bitLength.simps) simp
    ultimately show ?thesis by simp
  qed
qed

lemma bitLength_le: "n < 2 ^ k \<Longrightarrow> bitLength n \<le> k"
proof (induction k arbitrary: n)
  case 0
  then show ?case by (simp add: bitLength.simps)
next
  case (Suc k)
  show ?case
  proof (cases "n = 0")
    case True
    then show ?thesis by (simp add: bitLength.simps)
  next
    case False
    from Suc.prems have "n div 2 < 2 ^ k"
      by simp
    then have "bitLength (n div 2) \<le> k"
      by (rule Suc.IH)
    moreover have "bitLength n = Suc (bitLength (n div 2))"
      using False by (subst bitLength.simps) simp
    ultimately show ?thesis by simp
  qed
qed

text \<open>
  A finite result of \<open>nearestDouble\<close> is a double: a significand of at most 53 bits times
  the power of two, below \<open>2^1024\<close>; and it is within half a unit of that power from the
  integer.
\<close>

lemma nearestDouble_double:
  assumes "nearestDouble n = Some v"
  shows "\<exists>q. v = q * 2 ^ (bitLength n - 53) \<and> q \<le> 2 ^ 53 \<and> v < 2 ^ 1024
    \<and> 2 * n \<le> 2 * v + 2 ^ (bitLength n - 53) \<and> 2 * v \<le> 2 * n + 2 ^ (bitLength n - 53)"
proof (cases "n < 0x20000000000000")
  case True
  have c: "(0x20000000000000 :: nat) = 2 ^ 53"
    by simp
  from True have "bitLength n \<le> 53"
    unfolding c by (rule bitLength_le)
  moreover from True have "n \<le> 2 ^ 53" "n < 2 ^ 1024"
  proof -
    show "n \<le> 2 ^ 53" using True unfolding c by simp
    have "(2 :: nat) ^ 53 \<le> 2 ^ 1024" by (rule power_increasing) simp_all
    with True show "n < 2 ^ 1024" unfolding c by linarith
  qed
  moreover from True assms have "v = n"
    by (simp add: nearestDouble_def)
  ultimately show ?thesis
    by (intro exI [of _ n]) simp
next
  case False
  define e where "e = bitLength n - 53"
  define q where "q = n div 2 ^ e"
  define r where "r = n mod 2 ^ e"
  have n: "n = q * 2 ^ e + r"
    unfolding q_def r_def by (rule div_mult_mod_eq [symmetric])
  have r: "r < 2 ^ e"
    by (simp add: r_def)
  have c: "(0x20000000000000 :: nat) = 2 ^ 53"
    by simp
  have "53 \<le> bitLength n"
  proof (rule ccontr)
    assume "\<not> 53 \<le> bitLength n"
    then have "bitLength n \<le> 53" by simp
    then have "(2 :: nat) ^ bitLength n \<le> 2 ^ 53" by (intro power_increasing) simp_all
    with bitLength_less [of n] have "n < 2 ^ 53" by linarith
    with False show False unfolding c by simp
  qed
  then have "bitLength n = 53 + e"
    by (simp add: e_def)
  with bitLength_less [of n] have "n < 2 ^ 53 * 2 ^ e"
    by (simp add: power_add)
  then have q: "q < 2 ^ 53"
    by (simp add: q_def less_mult_imp_div_less)
  define q' where "q' = (if 2 ^ e < 2 * r \<or> (2 * r = 2 ^ e \<and> odd q) then q + 1 else q)"
  from False assms have v: "v = q' * 2 ^ e" and f: "v < 2 ^ 1024"
    by (auto simp: nearestDouble_def Let_def e_def q_def r_def q'_def split: if_splits)
  have "q' \<le> 2 ^ 53"
    using q by (simp add: q'_def)
  moreover have "2 * n \<le> 2 * v + 2 ^ e" "2 * v \<le> 2 * n + 2 ^ e"
    using r unfolding v n q'_def by (auto simp: algebra_simps)
  ultimately show ?thesis
    unfolding e_def [symmetric] using v f by blast
qed

lemma numberValue_not_NaN: "numberValue negative n \<noteq> NaN"
  by (simp add: numberValue_def split: option.split)

lemma numberValue_exact:
  assumes "0 < n" and "n < 0x20000000000000"
  shows "numberValue False n = Num (int n)" and "numberValue True n = Num (- int n)"
  using assms by (simp_all add: numberValue_def nearestDouble_def)

lemma parseInt_NaN_iff: "parseInt r = NaN \<longleftrightarrow> snd (snd (parseIntDigits r)) = []"
  by (cases "parseIntDigits r") (simp add: parseInt_def numberValue_not_NaN)

lemma bitLength_power2: "bitLength (2 ^ k) = Suc k"
proof (induction k)
  case 0
  show ?case by (simp add: bitLength.simps)
next
  case (Suc k)
  have "bitLength (2 ^ Suc k) = Suc (bitLength (2 ^ Suc k div 2))"
    by (subst bitLength.simps) simp
  with Suc show ?case by simp
qed

lemma nearestDouble_power2:
  assumes "53 \<le> k"
  shows "nearestDouble (2 ^ k) = (if 1024 \<le> k then None else Some (2 ^ k))"
proof -
  define e where "e = k - 52"
  have k: "k = 52 + e" and e: "bitLength (2 ^ k) - 53 = e"
    using assms by (simp_all add: e_def bitLength_power2)
  have c: "(0x20000000000000 :: nat) = 2 ^ 53"
    by simp
  have "(2 :: nat) ^ 53 \<le> 2 ^ k"
    using assms by (intro power_increasing) simp_all
  then have l: "\<not> (2 :: nat) ^ k < 0x20000000000000"
    by (simp only: c not_less)
  have p: "(2 :: nat) ^ k = 2 ^ 52 * 2 ^ e"
    by (simp only: k power_add)
  have q: "(2 :: nat) ^ k div 2 ^ e = 2 ^ 52" "(2 :: nat) ^ k mod 2 ^ e = 0"
    by (simp_all only: p) simp_all
  have o: "(2 :: nat) ^ 1024 \<le> 2 ^ k \<longleftrightarrow> 1024 \<le> k"
    by (rule power_increasing_iff) simp
  have "nearestDouble (2 ^ k) = (if (2 :: nat) ^ 1024 \<le> 2 ^ 52 * 2 ^ e then None
      else Some (2 ^ 52 * 2 ^ e))"
    unfolding nearestDouble_def Let_def e by (simp only: l q if_False) simp
  then show ?thesis
    by (simp only: p [symmetric] o)
qed

lemma numberValue_overflow:
  "numberValue False (2 ^ 1024) = PosInfinity" "numberValue True (2 ^ 1024) = NegInfinity"
proof -
  have "nearestDouble (2 ^ 1024) = None"
    by (subst nearestDouble_power2) simp_all
  then show "numberValue False (2 ^ 1024) = PosInfinity"
    "numberValue True (2 ^ 1024) = NegInfinity"
    unfolding numberValue_def by (simp_all only: option.case) simp_all
qed

lemma startsWith_iff: "startsWith s p \<longleftrightarrow> take (length p) s = p"
  by (induction s p rule: startsWith.induct) auto

lemma startsWith_append: "startsWith (p @ r) p"
  by (simp add: startsWith_iff)

lemma startsWithE: "startsWith s p \<Longrightarrow> \<exists>r. s = p @ r"
  by (metis startsWith_iff append_take_drop_id)

lemma trim_all_white: "\<forall>c \<in> set s. isWhiteSpace c \<Longrightarrow> trim s = []"
proof -
  assume "\<forall>c \<in> set s. isWhiteSpace c"
  then have h: "dropWhile isWhiteSpace s = []"
    by (simp add: dropWhile_eq_Nil_conv)
  show ?thesis
    by (simp only: trim_def trimStart_def trimEnd_def h rev.simps dropWhile.simps)
qed

lemma scan_prefix_excludes:
  "startsWith (js ''#DM:SCAN:FOUND:'' @ r) (js ''#BLE:RAW:'') = False"
  "startsWith (js ''#DM:SCAN:FOUND:'' @ r) (js ''#EVAL:STOP:STOP_OK:'') = False"
  "startsWith (js ''#DM:SCAN:FOUND:'' @ r) (js ''#MAN:TIMEOUT'') = False"
  "js ''#DM:SCAN:FOUND:'' \<noteq> []"
  "length (js ''#DM:SCAN:FOUND:'') = 15"
  by (simp_all add: js_def)

lemma includesStr_nonempty: "includesStr s p \<Longrightarrow> p \<noteq> [] \<Longrightarrow> s \<noteq> []"
  by (cases s) auto

lemma handleEvalStopData_frame:
  "scanResults (handleEvalStopData t m s) = scanResults s"
  "deviceStatus (handleEvalStopData t m s) = deviceStatus s"
  by (simp_all add: handleEvalStopData_def Let_def split: option.split)






lemma hash_prefix:
  "\<not> startsWith message (js ''#'') \<Longrightarrow> \<not> startsWith message (js ''#BLE:RAW:'')"
  "\<not> startsWith message (js ''#'') \<Longrightarrow> \<not> startsWith message (js ''#DM:SCAN:FOUND:'')"
  "\<not> startsWith message (js ''#'') \<Longrightarrow> \<not> startsWith message (js ''#ERR'')"
  by (cases message; simp add: js_def)+

lemma updateDeviceStatus_Blank:
  "deviceStatus (updateDeviceStatus message s) = Blank \<longleftrightarrow>
     \<not> startsWith message (js ''#BLE:RAW:'') \<and> startsWith message (js ''#DM:SCAN:FOUND:'')
     \<and> length (splitStr 0x2C (substring message (length (js ''#DM:SCAN:FOUND:'')))) < 3"
  by (simp add: updateDeviceStatus_def clearScanResults_def Let_def)

lemma updateDeviceStatus_Other:
  "\<not> startsWith message (js ''#'') \<Longrightarrow> \<not> containsStatusToken message \<Longrightarrow>
     updateDeviceStatus message s = s\<lparr>deviceStatus := Other message\<rparr>"
  by (simp add: updateDeviceStatus_def hash_prefix containsStatusToken_def)

section \<open>Properties of the scan registry\<close>

lemma find_mac_None: "find (\<lambda>x. mac x = m) rs = None \<longleftrightarrow> m \<notin> set (map mac rs)"
  by (induction rs) auto

lemma setFirstRssi_length: "length (setFirstRssi m r rs) = length rs"
  by (induction rs) auto

lemma setFirstRssi_mac: "map mac (setFirstRssi m r rs) = map mac rs"
  by (induction rs) auto

lemma setFirstRssi_name: "map name (setFirstRssi m r rs) = map name rs"
  by (induction rs) auto

lemma setFirstRssi_index:
  "m \<in> set (map mac rs) \<Longrightarrow>
   \<exists>i < length rs. mac (rs ! i) = m \<and> (\<forall>j < i. mac (rs ! j) \<noteq> m)
      \<and> setFirstRssi m r rs = rs[i := (rs ! i)\<lparr>rssi := r\<rparr>]"
proof (induction rs)
  case Nil
  then show ?case by simp
next
  case (Cons x xs)
  show ?case
  proof (cases "mac x = m")
    case True
    then have "mac ((x # xs) ! 0) = m \<and> (\<forall>j < 0. mac ((x # xs) ! j) \<noteq> m)
        \<and> setFirstRssi m r (x # xs) = (x # xs)[0 := ((x # xs) ! 0)\<lparr>rssi := r\<rparr>]"
      by simp
    then show ?thesis by (intro exI [of _ 0]) simp
  next
    case False
    with Cons.prems have "m \<in> set (map mac xs)" by auto
    from Cons.IH [OF this] obtain i where i: "i < length xs" "mac (xs ! i) = m"
      "\<forall>j < i. mac (xs ! j) \<noteq> m" "setFirstRssi m r xs = xs[i := (xs ! i)\<lparr>rssi := r\<rparr>]"
      by blast
    have "\<forall>j < Suc i. mac ((x # xs) ! j) \<noteq> m"
      using False i(3) by (auto simp: less_Suc_eq_0_disj)
    with i False show ?thesis
      by (intro exI [of _ "Suc i"]) simp
  qed
qed

lemma addScanResult_distinct:
  "distinct (map mac (scanResults s)) \<Longrightarrow>
   distinct (map mac (scanResults (addScanResult m r n s)))"
proof (cases "find (\<lambda>x. mac x = m) (scanResults s)")
  case None
  assume "distinct (map mac (scanResults s))"
  moreover from None have "m \<notin> set (map mac (scanResults s))"
    by (simp add: find_mac_None)
  ultimately show ?thesis
    using None by (simp add: addScanResult_def)
next
  case (Some existing)
  assume "distinct (map mac (scanResults s))"
  with Some show ?thesis
    by (simp add: addScanResult_def setFirstRssi_mac)
qed

lemma addScanResults_distinct:
  "distinct (map mac (scanResults s)) \<Longrightarrow>
   distinct (map mac (scanResults (addScanResults ups s)))"
  by (induction ups s rule: addScanResults.induct) (auto intro: addScanResult_distinct)

lemma addScanResult_member: "m \<in> mac ` set (scanResults (addScanResult m r n s))"
proof (cases "find (\<lambda>x. mac x = m) (scanResults s)")
  case None
  then show ?thesis by (simp add: addScanResult_def)
next
  case (Some existing)
  then have "m \<in> set (map mac (scanResults s))"
    using find_mac_None [of m "scanResults s"] by simp
  with Some show ?thesis
    using setFirstRssi_mac [of m r "scanResults s"] 
    by (simp add: addScanResult_def) (metis list.set_map)
qed

text \<open>
  Claim C6. An upsert for an id that is already in the registry changes the signal strength
  of the first record with that id and nothing else: the number of records, their ids and
  their display names stay as they were. An upsert for a new id appends the full record.
  Hence a registry with one record per id keeps that property under every sequence of
  upserts, and so does the registry built from the empty one.
\<close>

theorem addScanResult_upsert:
  "(m \<in> set (map mac (scanResults s)) \<longrightarrow>
      (\<exists>i < length (scanResults s).
          mac (scanResults s ! i) = m \<and> (\<forall>j < i. mac (scanResults s ! j) \<noteq> m)
          \<and> scanResults (addScanResult m r n s)
              = (scanResults s)[i := (scanResults s ! i)\<lparr>rssi := r\<rparr>])
      \<and> length (scanResults (addScanResult m r n s)) = length (scanResults s)
      \<and> map mac (scanResults (addScanResult m r n s)) = map mac (scanResults s)
      \<and> map name (scanResults (addScanResult m r n s)) = map name (scanResults s))
   \<and> (m \<notin> set (map mac (scanResults s)) \<longrightarrow>
        scanResults (addScanResult m r n s)
          = scanResults s @ [\<lparr>mac = m, rssi = r, name = n\<rparr>])
   \<and> (distinct (map mac (scanResults s)) \<longrightarrow>
        distinct (map mac (scanResults (addScanResults ups s))))
   \<and> distinct (map mac (scanResults (addScanResults ups (initial page))))
   \<and> evalDataRows (addScanResult m r n s) = evalDataRows s"
proof -
  have present: "scanResults (addScanResult m r n s) = setFirstRssi m r (scanResults s)"
    if "m \<in> set (map mac (scanResults s))"
  proof (cases "find (\<lambda>x. mac x = m) (scanResults s)")
    case None
    with that show ?thesis by (simp add: find_mac_None)
  next
    case (Some a)
    then show ?thesis by (simp add: addScanResult_def)
  qed
  have absent: "scanResults (addScanResult m r n s)
      = scanResults s @ [\<lparr>mac = m, rssi = r, name = n\<rparr>]"
    if "m \<notin> set (map mac (scanResults s))"
  proof -
    from that have "find (\<lambda>x. mac x = m) (scanResults s) = None"
      by (simp add: find_mac_None)
    then show ?thesis by (simp add: addScanResult_def)
  qed
  have frame: "evalDataRows (addScanResult m r n s) = evalDataRows s"
    by (simp add: addScanResult_def split: option.split)
  have init: "distinct (map mac (scanResults (addScanResults ups (initial page))))"
    by (rule addScanResults_distinct) (simp add: initial_def)
  show ?thesis
    using present absent frame init setFirstRssi_index [of m "scanResults s" r]
    by (simp add: setFirstRssi_length setFirstRssi_mac setFirstRssi_name
        addScanResults_distinct)
qed

theorem addScanResult_upsert_witness:
  "js ''AABBCCDDEEFF'' \<in> set (map mac (scanResults
      \<lparr>scanResults = [\<lparr>mac = js ''AABBCCDDEEFF'', rssi = Num (- 65), name = js ''Sensor1''\<rparr>],
       evalDataRows = [], deviceStatus = Blank, receivedLog = [], console = []\<rparr>))
   \<and> map name (scanResults (addScanResult (js ''AABBCCDDEEFF'') (Num (- 60)) (js ''Renamed'')
      \<lparr>scanResults = [\<lparr>mac = js ''AABBCCDDEEFF'', rssi = Num (- 65), name = js ''Sensor1''\<rparr>],
       evalDataRows = [], deviceStatus = Blank, receivedLog = [], console = []\<rparr>))
     = [js ''Sensor1'']
   \<and> js ''AABBCCDDEEFF'' \<notin> set (map mac (scanResults (initial Blank)))
   \<and> scanResults (addScanResult (js ''AABBCCDDEEFF'') (Num (- 65)) (js ''Sensor1'') (initial Blank))
     = [\<lparr>mac = js ''AABBCCDDEEFF'', rssi = Num (- 65), name = js ''Sensor1''\<rparr>]
   \<and> distinct (map mac (scanResults (initial Blank)))
   \<and> distinct (map mac (scanResults (addScanResults
        [(js ''AABBCCDDEEFF'', Num (- 65), js ''Sensor1''), (js ''AABBCCDDEEFF'', NaN, js ''Renamed'')]
        (initial Blank))))"
  using
    addScanResult_upsert [where m = "js ''AABBCCDDEEFF''" and r = "Num (- 60)"
      and n = "js ''Renamed''" and ups = "[]" and page = Blank
      and s = "\<lparr>scanResults = [\<lparr>mac = js ''AABBCCDDEEFF'', rssi = Num (- 65), name = js ''Sensor1''\<rparr>],
       evalDataRows = [], deviceStatus = Blank, receivedLog = [], console = []\<rparr>"]
    addScanResult_upsert [where m = "js ''AABBCCDDEEFF''" and r = "Num (- 65)"
      and n = "js ''Sensor1''" and s = "initial Blank" and page = Blank
      and ups = "[(js ''AABBCCDDEEFF'', Num (- 65), js ''Sensor1''),
                  (js ''AABBCCDDEEFF'', NaN, js ''Renamed'')]"]
  by (simp add: initial_def)

section \<open>UTF-8 and UTF-16\<close>

text \<open>
  The bytes of a scalar value are its digits in base 64 under the marker bits of UTF-8, and
  the decoder reads them back: first the arithmetic of the digits, then the decoder's steps
  on one sequence, then whole strings.
\<close>

lemma div64_div64: "(n::nat) div 0x40 div 0x40 = n div 0x1000"
  by (simp add: div_mult2_eq [symmetric])

lemma div4096_div64: "(n::nat) div 0x1000 div 0x40 = n div 0x40000"
  by (simp add: div_mult2_eq [symmetric])

lemma lead_mod:
  "k < 0x20 \<Longrightarrow> (0xC0 + k) mod 0x20 = (k::nat)"
  "k < 0x10 \<Longrightarrow> (0xE0 + k) mod 0x10 = (k::nat)"
  "k < 0x08 \<Longrightarrow> (0xF0 + k) mod 0x08 = (k::nat)"
  "(0x80 + n mod 0x40) mod 0x40 = (n::nat) mod 0x40"
proof -
  have "(0xC0 + k) mod 0x20 = (k + 0x20 * 6) mod 0x20" by (simp add: add.commute)
  also have "\<dots> = k mod 0x20" by (rule mod_mult_self2)
  finally show "k < 0x20 \<Longrightarrow> (0xC0 + k) mod 0x20 = k" by simp
  have "(0xE0 + k) mod 0x10 = (k + 0x10 * 14) mod 0x10" by (simp add: add.commute)
  also have "\<dots> = k mod 0x10" by (rule mod_mult_self2)
  finally show "k < 0x10 \<Longrightarrow> (0xE0 + k) mod 0x10 = k" by simp
  have "(0xF0 + k) mod 0x08 = (k + 0x08 * 30) mod 0x08" by (simp add: add.commute)
  also have "\<dots> = k mod 0x08" by (rule mod_mult_self2)
  finally show "k < 0x08 \<Longrightarrow> (0xF0 + k) mod 0x08 = k" by simp
  have "(0x80 + n mod 0x40) mod 0x40 = (n mod 0x40 + 0x40 * 2) mod 0x40" by (simp add: add.commute)
  also have "\<dots> = n mod 0x40 mod 0x40" by (rule mod_mult_self2)
  finally show "(0x80 + n mod 0x40) mod 0x40 = n mod 0x40" by simp
qed

lemma digits2: "(n::nat) div 0x40 * 0x40 + n mod 0x40 = n"
  by simp

lemma digits3: "((n::nat) div 0x1000 * 0x40 + n div 0x40 mod 0x40) * 0x40 + n mod 0x40 = n"
proof -
  have "n div 0x1000 * 0x40 + n div 0x40 mod 0x40 = n div 0x40"
    using div_mult_mod_eq [of "n div 0x40" "0x40"] by (simp only: div64_div64)
  then show ?thesis by (simp only: digits2)
qed

lemma digits4:
  "(((n::nat) div 0x40000 * 0x40 + n div 0x1000 mod 0x40) * 0x40 + n div 0x40 mod 0x40) * 0x40
     + n mod 0x40 = n"
proof -
  have "n div 0x40000 * 0x40 + n div 0x1000 mod 0x40 = n div 0x1000"
    using div_mult_mod_eq [of "n div 0x1000" "0x40"] by (simp only: div4096_div64)
  then show ?thesis by (simp only: digits3)
qed

lemma second_of_three:
  assumes "0x800 \<le> (n::nat)" and "n < 0x10000"
  shows "n div 0x1000 < 0x10"
    and "n div 0x1000 = 0 \<Longrightarrow> 0x20 \<le> n div 0x40 mod 0x40"
    and "n div 0x1000 = 13 \<Longrightarrow> n < 0xD800 \<Longrightarrow> n div 0x40 mod 0x40 < 0x20"
proof -
  show "n div 0x1000 < 0x10"
    using assms by (simp add: div_less_iff_less_mult)
  have d: "n div 0x1000 * 0x40 + n div 0x40 mod 0x40 = n div 0x40"
    using div_mult_mod_eq [of "n div 0x40" "0x40"] by (simp only: div64_div64)
  have l: "0x20 \<le> n div 0x40"
    using assms by (simp add: less_eq_div_iff_mult_less_eq)
  show "0x20 \<le> n div 0x40 mod 0x40" if "n div 0x1000 = 0"
    using d l that by simp
  show "n div 0x40 mod 0x40 < 0x20" if "n div 0x1000 = 13" and "n < 0xD800"
  proof -
    have "n div 0x40 < 0x360"
      using that(2) by (simp add: div_less_iff_less_mult)
    with d that(1) show ?thesis by simp
  qed
qed

lemma second_of_four:
  assumes "0x10000 \<le> (n::nat)" and "n < 0x110000"
  shows "n div 0x40000 < 5"
    and "n div 0x40000 = 0 \<Longrightarrow> 0x10 \<le> n div 0x1000 mod 0x40"
    and "n div 0x40000 = 4 \<Longrightarrow> n div 0x1000 mod 0x40 < 0x10"
proof -
  show "n div 0x40000 < 5"
    using assms by (simp add: div_less_iff_less_mult)
  have d: "n div 0x40000 * 0x40 + n div 0x1000 mod 0x40 = n div 0x1000"
    using div_mult_mod_eq [of "n div 0x1000" "0x40"] by (simp only: div4096_div64)
  have l: "0x10 \<le> n div 0x1000"
    using assms by (simp add: less_eq_div_iff_mult_less_eq)
  show "0x10 \<le> n div 0x1000 mod 0x40" if "n div 0x40000 = 0"
    using d l that by simp
  show "n div 0x1000 mod 0x40 < 0x10" if "n div 0x40000 = 4"
  proof -
    have "n div 0x1000 < 0x110"
      using assms(2) by (simp add: div_less_iff_less_mult)
    with d that show ?thesis by simp
  qed
qed

lemma first_of_two:
  assumes "0x80 \<le> (n::nat)" and "n < 0x800"
  shows "n div 0x40 < 0x20" and "2 \<le> n div 0x40"
  using assms by (simp_all add: div_less_iff_less_mult less_eq_div_iff_mult_less_eq)


lemma unat_byte: "n < 256 \<Longrightarrow> unat (of_nat n :: byte) = n"
  by (simp add: unat_of_nat)

lemma decode_ascii:
  "unat b \<le> 0x7F \<Longrightarrow> utf8Decode utf8Start (b # bs) = unat b # utf8Decode utf8Start bs"
  by (simp add: utf8Decode.simps utf8Start_def)

lemma decode_lead2:
  "0xC2 \<le> unat b \<Longrightarrow> unat b \<le> 0xDF \<Longrightarrow>
   utf8Decode utf8Start (b # bs)
     = utf8Decode (utf8Start\<lparr>bytesNeeded := 1, codePoint := unat b mod 0x20\<rparr>) bs"
  by (simp add: utf8Decode.simps utf8Start_def)

lemma decode_lead3:
  "0xE0 \<le> unat b \<Longrightarrow> unat b \<le> 0xEF \<Longrightarrow>
   utf8Decode utf8Start (b # bs)
     = utf8Decode (utf8Start\<lparr>lowerBoundary := (if unat b = 0xE0 then 0xA0 else 0x80),
          upperBoundary := (if unat b = 0xED then 0x9F else 0xBF),
          bytesNeeded := 2, codePoint := unat b mod 0x10\<rparr>) bs"
  by (simp add: utf8Decode.simps utf8Start_def)

lemma decode_lead4:
  "0xF0 \<le> unat b \<Longrightarrow> unat b \<le> 0xF4 \<Longrightarrow>
   utf8Decode utf8Start (b # bs)
     = utf8Decode (utf8Start\<lparr>lowerBoundary := (if unat b = 0xF0 then 0x90 else 0x80),
          upperBoundary := (if unat b = 0xF4 then 0x8F else 0xBF),
          bytesNeeded := 3, codePoint := unat b mod 0x08\<rparr>) bs"
  by (simp add: utf8Decode.simps utf8Start_def)

lemma decode_continue:
  "bytesNeeded d \<noteq> 0 \<Longrightarrow> lowerBoundary d \<le> unat b \<Longrightarrow> unat b \<le> upperBoundary d \<Longrightarrow>
   bytesSeen d + 1 \<noteq> bytesNeeded d \<Longrightarrow>
   utf8Decode d (b # bs)
     = utf8Decode (d\<lparr>lowerBoundary := 0x80, upperBoundary := 0xBF,
          codePoint := codePoint d * 0x40 + unat b mod 0x40,
          bytesSeen := bytesSeen d + 1\<rparr>) bs"
  by (simp add: utf8Decode.simps)

lemma decode_last:
  "bytesNeeded d \<noteq> 0 \<Longrightarrow> lowerBoundary d \<le> unat b \<Longrightarrow> unat b \<le> upperBoundary d \<Longrightarrow>
   bytesSeen d + 1 = bytesNeeded d \<Longrightarrow>
   utf8Decode d (b # bs) = (codePoint d * 0x40 + unat b mod 0x40) # utf8Decode utf8Start bs"
  by (simp add: utf8Decode.simps)



lemma utf8Start_sel:
  "codePoint utf8Start = 0" "bytesSeen utf8Start = 0" "bytesNeeded utf8Start = 0"
  "lowerBoundary utf8Start = 0x80" "upperBoundary utf8Start = 0xBF"
  by (simp_all add: utf8Start_def)

lemma decode2:
  assumes "unat b1 = 0xC0 + k" and "unat b2 = 0x80 + r"
    and "2 \<le> k" and "k < 0x20" and "r < 0x40"
  shows "utf8Decode utf8Start (b1 # b2 # bs) = (k * 0x40 + r) # utf8Decode utf8Start bs"
proof -
  have m: "(0xC0 + k) mod 0x20 = k" "(0x80 + r) mod 0x40 = r"
    using assms(4,5) lead_mod(1) [of k] lead_mod(4) [of r] by simp_all
  show ?thesis
    using assms by (simp add: decode_lead2 decode_last utf8Start_sel m)
qed

lemma decode3:
  assumes "unat b1 = 0xE0 + k" and "unat b2 = 0x80 + q" and "unat b3 = 0x80 + r"
    and "k < 0x10" and "q < 0x40" and "r < 0x40"
    and "k = 0 \<Longrightarrow> 0x20 \<le> q" and "k = 13 \<Longrightarrow> q < 0x20"
  shows "utf8Decode utf8Start (b1 # b2 # b3 # bs)
    = ((k * 0x40 + q) * 0x40 + r) # utf8Decode utf8Start bs"
proof -
  define d where "d = utf8Start\<lparr>lowerBoundary := (if unat b1 = 0xE0 then 0xA0 else 0x80),
          upperBoundary := (if unat b1 = 0xED then 0x9F else 0xBF),
          bytesNeeded := 2, codePoint := unat b1 mod 0x10\<rparr>"
  have m: "(0xE0 + k) mod 0x10 = k" "(0x80 + q) mod 0x40 = q" "(0x80 + r) mod 0x40 = r"
    using assms(4,5,6) lead_mod(2) [of k] lead_mod(4) [of q] lead_mod(4) [of r] by simp_all
  have s1: "utf8Decode utf8Start (b1 # b2 # b3 # bs) = utf8Decode d (b2 # b3 # bs)"
    unfolding d_def using assms(1,4) by (intro decode_lead3) simp_all
  have d: "bytesNeeded d = 2" "bytesSeen d = 0" "codePoint d = k"
    by (simp_all add: d_def utf8Start_sel assms(1) m)
  have lo: "lowerBoundary d \<le> unat b2"
    using assms(7) by (cases "k = 0") (simp_all add: d_def utf8Start_sel assms(1,2))
  have hi: "unat b2 \<le> upperBoundary d"
    using assms(5,8) by (cases "k = 13") (simp_all add: d_def utf8Start_sel assms(1,2))
  have s2: "utf8Decode d (b2 # b3 # bs)
      = utf8Decode (d\<lparr>lowerBoundary := 0x80, upperBoundary := 0xBF,
          codePoint := codePoint d * 0x40 + unat b2 mod 0x40,
          bytesSeen := bytesSeen d + 1\<rparr>) (b3 # bs)"
    using lo hi by (intro decode_continue) (simp_all add: d)
  have s3: "utf8Decode (d\<lparr>lowerBoundary := 0x80, upperBoundary := 0xBF,
          codePoint := codePoint d * 0x40 + unat b2 mod 0x40,
          bytesSeen := bytesSeen d + 1\<rparr>) (b3 # bs)
      = ((k * 0x40 + q) * 0x40 + r) # utf8Decode utf8Start bs"
    using assms(6) by (subst decode_last) (simp_all add: d assms(2,3) m)
  show ?thesis
    by (simp only: s1 s2 s3)
qed

lemma decode4:
  assumes "unat b1 = 0xF0 + k" and "unat b2 = 0x80 + p" and "unat b3 = 0x80 + q"
    and "unat b4 = 0x80 + r"
    and "k < 5" and "p < 0x40" and "q < 0x40" and "r < 0x40"
    and "k = 0 \<Longrightarrow> 0x10 \<le> p" and "k = 4 \<Longrightarrow> p < 0x10"
  shows "utf8Decode utf8Start (b1 # b2 # b3 # b4 # bs)
    = (((k * 0x40 + p) * 0x40 + q) * 0x40 + r) # utf8Decode utf8Start bs"
proof -
  define d where "d = utf8Start\<lparr>lowerBoundary := (if unat b1 = 0xF0 then 0x90 else 0x80),
          upperBoundary := (if unat b1 = 0xF4 then 0x8F else 0xBF),
          bytesNeeded := 3, codePoint := unat b1 mod 0x08\<rparr>"
  define e where "e = d\<lparr>lowerBoundary := 0x80, upperBoundary := 0xBF,
          codePoint := codePoint d * 0x40 + unat b2 mod 0x40,
          bytesSeen := bytesSeen d + 1\<rparr>"
  have m: "(0xF0 + k) mod 0x08 = k" "(0x80 + p) mod 0x40 = p" "(0x80 + q) mod 0x40 = q"
    "(0x80 + r) mod 0x40 = r"
    using assms(5,6,7,8) lead_mod(3) [of k] lead_mod(4) [of p] lead_mod(4) [of q]
      lead_mod(4) [of r] by simp_all
  have s1: "utf8Decode utf8Start (b1 # b2 # b3 # b4 # bs) = utf8Decode d (b2 # b3 # b4 # bs)"
    unfolding d_def using assms(1,5) by (intro decode_lead4) simp_all
  have d: "bytesNeeded d = 3" "bytesSeen d = 0" "codePoint d = k"
    by (simp_all add: d_def utf8Start_sel assms(1) m)
  have lo: "lowerBoundary d \<le> unat b2"
    using assms(9) by (cases "k = 0") (simp_all add: d_def utf8Start_sel assms(1,2))
  have hi: "unat b2 \<le> upperBoundary d"
    using assms(6,10) by (cases "k = 4") (simp_all add: d_def utf8Start_sel assms(1,2))
  have s2: "utf8Decode d (b2 # b3 # b4 # bs) = utf8Decode e (b3 # b4 # bs)"
    unfolding e_def using lo hi by (intro decode_continue) (simp_all add: d)
  have e: "bytesNeeded e = 3" "bytesSeen e = 1" "codePoint e = k * 0x40 + p"
    "lowerBoundary e = 0x80" "upperBoundary e = 0xBF"
    by (simp_all add: e_def d assms(2) m)
  have s3: "utf8Decode e (b3 # b4 # bs)
      = utf8Decode (e\<lparr>lowerBoundary := 0x80, upperBoundary := 0xBF,
          codePoint := codePoint e * 0x40 + unat b3 mod 0x40,
          bytesSeen := bytesSeen e + 1\<rparr>) (b4 # bs)"
    using assms(7) by (intro decode_continue) (simp_all add: e assms(3))
  have s4: "utf8Decode (e\<lparr>lowerBoundary := 0x80, upperBoundary := 0xBF,
          codePoint := codePoint e * 0x40 + unat b3 mod 0x40,
          bytesSeen := bytesSeen e + 1\<rparr>) (b4 # bs)
      = (((k * 0x40 + p) * 0x40 + q) * 0x40 + r) # utf8Decode utf8Start bs"
    using assms(8) by (subst decode_last) (simp_all add: e assms(3,4) m)
  show ?thesis
    by (simp only: s1 s2 s3 s4)
qed


lemma roundtrip_scalar:
  assumes "isScalarValue cp"
  shows "utf8Decode utf8Start (utf8Bytes cp @ bs) = cp # utf8Decode utf8Start bs"
proof -
  consider "cp < 0x80" | "0x80 \<le> cp" "cp < 0x800" | "0x800 \<le> cp" "cp < 0x10000"
    | "0x10000 \<le> cp" "cp < 0x110000"
    using assms unfolding isScalarValue_def by (metis not_le)
  then show ?thesis
  proof cases
    case 1
    then have "unat (of_nat cp :: byte) = cp"
      by (intro unat_byte) simp
    with 1 show ?thesis
      by (simp add: utf8Bytes_def decode_ascii)
  next
    case 2
    define k where "k = cp div 0x40"
    define r where "r = cp mod 0x40"
    have k: "2 \<le> k" "k < 0x20"
      using first_of_two [OF 2] by (simp_all add: k_def)
    have r: "r < 0x40"
      by (simp add: r_def)
    have u1: "unat (of_nat (0xC0 + k) :: byte) = 0xC0 + k"
      using k by (intro unat_byte) simp
    have u2: "unat (of_nat (0x80 + r) :: byte) = 0x80 + r"
      using r by (intro unat_byte) simp
    have "k * 0x40 + r = cp"
      by (simp add: k_def r_def)
    with decode2 [OF u1 u2 k r, of bs] 2 show ?thesis
      by (simp add: utf8Bytes_def k_def r_def)
  next
    case 3
    define k where "k = cp div 0x1000"
    define q where "q = cp div 0x40 mod 0x40"
    define r where "r = cp mod 0x40"
    have k: "k < 0x10"
      using second_of_three(1) [OF 3] by (simp add: k_def)
    have q: "q < 0x40" and r: "r < 0x40"
      by (simp_all add: q_def r_def)
    have q0: "0x20 \<le> q" if "k = 0"
      using second_of_three(2) [OF 3] that by (simp add: k_def q_def)
    have q13: "q < 0x20" if "k = 13"
    proof -
      from that have "cp div 0x1000 < 14" by (simp add: k_def)
      then have "cp < 0xE000" by (simp add: div_less_iff_less_mult)
      moreover from that have "13 \<le> cp div 0x1000" by (simp add: k_def)
      then have "0xD000 \<le> cp" by (simp add: less_eq_div_iff_mult_less_eq)
      ultimately have "cp < 0xD800"
        using assms by (simp add: isScalarValue_def)
      then show ?thesis
        using second_of_three(3) [OF 3] that by (simp add: k_def q_def)
    qed
    have u1: "unat (of_nat (0xE0 + k) :: byte) = 0xE0 + k"
      using k by (intro unat_byte) simp
    have u2: "unat (of_nat (0x80 + q) :: byte) = 0x80 + q"
      using q by (intro unat_byte) simp
    have u3: "unat (of_nat (0x80 + r) :: byte) = 0x80 + r"
      using r by (intro unat_byte) simp
    have "(k * 0x40 + q) * 0x40 + r = cp"
      using digits3 [of cp] by (simp add: k_def q_def r_def)
    with decode3 [OF u1 u2 u3 k q r q0 q13, of bs] 3 show ?thesis
      by (simp add: utf8Bytes_def k_def q_def r_def)
  next
    case 4
    define k where "k = cp div 0x40000"
    define p where "p = cp div 0x1000 mod 0x40"
    define q where "q = cp div 0x40 mod 0x40"
    define r where "r = cp mod 0x40"
    have k: "k < 5"
      using second_of_four(1) [OF 4] by (simp add: k_def)
    have p: "p < 0x40" and q: "q < 0x40" and r: "r < 0x40"
      by (simp_all add: p_def q_def r_def)
    have p0: "0x10 \<le> p" if "k = 0"
      using second_of_four(2) [OF 4] that by (simp add: k_def p_def)
    have p4: "p < 0x10" if "k = 4"
      using second_of_four(3) [OF 4] that by (simp add: k_def p_def)
    have u1: "unat (of_nat (0xF0 + k) :: byte) = 0xF0 + k"
      using k by (intro unat_byte) simp
    have u2: "unat (of_nat (0x80 + p) :: byte) = 0x80 + p"
      using p by (intro unat_byte) simp
    have u3: "unat (of_nat (0x80 + q) :: byte) = 0x80 + q"
      using q by (intro unat_byte) simp
    have u4: "unat (of_nat (0x80 + r) :: byte) = 0x80 + r"
      using r by (intro unat_byte) simp
    have "((k * 0x40 + p) * 0x40 + q) * 0x40 + r = cp"
      using digits4 [of cp] by (simp add: k_def p_def q_def r_def)
    with decode4 [OF u1 u2 u3 u4 k p q r p0 p4, of bs] 4 show ?thesis
      by (simp add: utf8Bytes_def k_def p_def q_def r_def)
  qed
qed

lemma roundtrip_scalars:
  "\<forall>cp \<in> set cps. isScalarValue cp \<Longrightarrow>
   utf8Decode utf8Start (concat (map utf8Bytes cps)) = cps"
proof (induction cps)
  case Nil
  show ?case by (simp add: utf8Decode.simps utf8Start_sel)
next
  case (Cons cp cps)
  then show ?case by (simp add: roundtrip_scalar)
qed


lemma surrogate_unat:
  "isHighSurrogate c \<longleftrightarrow> 0xD800 \<le> unat c \<and> unat c \<le> 0xDBFF"
  "isLowSurrogate c \<longleftrightarrow> 0xDC00 \<le> unat c \<and> unat c \<le> 0xDFFF"
  by (simp_all add: isHighSurrogate_def isLowSurrogate_def word_le_nat_alt)

lemma unat_code_unit: "unat (c :: code_unit) < 0x10000"
  using unsigned_less [of c, where ?'a = nat] by simp

lemma bmp_scalar:
  "\<not> isHighSurrogate c \<Longrightarrow> \<not> isLowSurrogate c \<Longrightarrow> isScalarValue (unat c)"
  using unat_code_unit [of c] by (auto simp: surrogate_unat isScalarValue_def)

lemma pair_scalar:
  assumes "isHighSurrogate c" and "isLowSurrogate d"
  shows "isScalarValue (0x10000 + (unat c - 0xD800) * 0x400 + (unat d - 0xDC00))"
proof -
  have "unat c - 0xD800 \<le> 0x3FF" "unat d - 0xDC00 \<le> 0x3FF"
    using assms by (auto simp: surrogate_unat)
  then have "(unat c - 0xD800) * 0x400 + (unat d - 0xDC00) \<le> 0x3FF * 0x400 + 0x3FF"
    by (intro add_mono mult_le_mono1)
  then show ?thesis
    by (simp add: isScalarValue_def)
qed

lemma replacement_scalar: "isScalarValue 0xFFFD"
  by (simp add: isScalarValue_def)

lemma scalarValues_scalar: "\<forall>cp \<in> set (scalarValues s). isScalarValue cp"
  by (induction s rule: scalarValues.induct)
     (simp_all add: bmp_scalar pair_scalar replacement_scalar)

lemma textDecode_textEncode:
  "textDecode (textEncode s) = concat (map codeUnits (stripBOM (scalarValues s)))"
  by (simp add: textDecode_def textEncode_def roundtrip_scalars scalarValues_scalar)

lemma codeUnits_bmp: "codeUnits (unat (c :: code_unit)) = [c]"
  using unat_code_unit [of c] by (simp add: codeUnits_def)

lemma codeUnits_pair:
  assumes "isHighSurrogate c" and "isLowSurrogate d"
  shows "codeUnits (0x10000 + (unat c - 0xD800) * 0x400 + (unat d - 0xDC00)) = [c, d]"
proof -
  define h where "h = unat c - 0xD800"
  define l where "l = unat d - 0xDC00"
  have l: "l < 0x400"
    using assms(2) by (auto simp: surrogate_unat l_def)
  have c: "0xD800 + h = unat c" and d: "0xDC00 + l = unat d"
    using assms by (auto simp: surrogate_unat h_def l_def)
  have "(h * 0x400 + l) div 0x400 = h" "(h * 0x400 + l) mod 0x400 = l"
    using l by simp_all
  then have "codeUnits (0x10000 + h * 0x400 + l)
      = [of_nat (0xD800 + h), of_nat (0xDC00 + l)]"
    by (simp add: codeUnits_def add.assoc)
  then show ?thesis
    by (simp only: c d h_def [symmetric] l_def [symmetric]) simp
qed

lemma codeUnits_scalarValues:
  "isWellFormed s \<Longrightarrow> concat (map codeUnits (scalarValues s)) = s"
proof (induction s rule: scalarValues.induct)
  case 1
  show ?case by simp
next
  case (2 c)
  then show ?case by (simp add: codeUnits_bmp)
next
  case (3 c d cs)
  show ?case
  proof (cases "isHighSurrogate c")
    case True
    with "3.prems" have d: "isLowSurrogate d" and "isWellFormed cs"
      by simp_all
    with "3.IH"(1) True have "concat (map codeUnits (scalarValues cs)) = cs"
      by simp
    with True d show ?thesis
      by (simp add: codeUnits_pair)
  next
    case False
    with "3.prems" have c: "\<not> isLowSurrogate c" and "isWellFormed (d # cs)"
      by simp_all
    with "3.IH"(2) False have "concat (map codeUnits (scalarValues (d # cs))) = d # cs"
      by simp
    with False c show ?thesis
      by (simp add: codeUnits_bmp)
  qed
qed

lemma CRLF_not_surrogate:
  "\<not> isHighSurrogate 0x0D" "\<not> isLowSurrogate 0x0D"
  "\<not> isHighSurrogate 0x0A" "\<not> isLowSurrogate 0x0A"
  by (simp_all add: isHighSurrogate_def isLowSurrogate_def)

lemma scalarValues_CRLF: "scalarValues (s @ CRLF) = scalarValues s @ [0x0D, 0x0A]"
  by (induction s rule: scalarValues.induct) (simp_all add: CRLF_def CRLF_not_surrogate)

lemma textEncode_CRLF: "textEncode (s @ CRLF) = textEncode s @ [0x0D, 0x0A]"
  by (simp add: textEncode_def scalarValues_CRLF utf8Bytes_def)

lemma isWellFormed_CRLF: "isWellFormed s \<Longrightarrow> isWellFormed (s @ CRLF)"
  by (induction s rule: isWellFormed.induct) (simp_all add: CRLF_def CRLF_not_surrogate)


lemma trim_white_Cons: "isWhiteSpace w \<Longrightarrow> trim (w # s) = trim s"
  by (simp add: trim_def trimStart_def)

lemma white_CRLF: "isWhiteSpace 0x0D" "isWhiteSpace 0x0A" "isWhiteSpace 0xFEFF"
  by (simp_all add: isWhiteSpace_def isLineTerminator_def)

lemma trimEnd_CRLF: "trimEnd (s @ CRLF) = trimEnd s"
  by (simp add: trimEnd_def CRLF_def white_CRLF)

lemma trim_CRLF: "trim (s @ CRLF) = trim s"
proof (cases "\<forall>c \<in> set s. isWhiteSpace c")
  case True
  then have "\<forall>c \<in> set (s @ CRLF). isWhiteSpace c"
    by (simp add: CRLF_def white_CRLF)
  then have "trim (s @ CRLF) = []"
    by (rule trim_all_white)
  with True show ?thesis
    by (simp add: trim_all_white)
next
  case False
  then obtain x where "x \<in> set s" "\<not> isWhiteSpace x"
    by blast
  then have "dropWhile isWhiteSpace (s @ CRLF) = dropWhile isWhiteSpace s @ CRLF"
    by (rule dropWhile_append1)
  then show ?thesis
    by (simp add: trim_def trimStart_def trimEnd_CRLF)
qed

lemma trim_stripBOM:
  "trim (concat (map codeUnits (stripBOM cps))) = trim (concat (map codeUnits cps))"
proof (cases cps)
  case Nil
  then show ?thesis by (simp add: stripBOM_def)
next
  case (Cons c cs)
  have "codeUnits 0xFEFF = [0xFEFF]"
    by (simp add: codeUnits_def)
  with Cons show ?thesis
    by (simp add: stripBOM_def trim_white_Cons white_CRLF)
qed

lemma parsePacket_textEncode:
  "isWellFormed s \<Longrightarrow> parsePacket (textEncode s) = trim s"
  by (simp add: parsePacket_def textDecode_textEncode trim_stripBOM codeUnits_scalarValues)

section \<open>Properties of the framer\<close>

text \<open>
  Claim C1, as amended. For every payload without an unpaired surrogate code unit whose
  UTF-8 encoding with a CRLF terminator has at most 64 bytes, \<open>buildPacket\<close> returns the
  packet, which is the encoding of the payload with CRLF appended unless it was there
  already, and \<open>parsePacket\<close> of that packet is the trimmed payload.
\<close>

theorem buildPacket_parsePacket:
  assumes "isWellFormed payload"
    and "length (textEncode (payload @ CRLF)) \<le> 64"
  shows "buildPacket payload
      = Inr (textEncode (if endsWith payload CRLF then payload else payload @ CRLF))
    \<and> parsePacket (textEncode (if endsWith payload CRLF then payload else payload @ CRLF))
      = trim payload"
proof (cases "endsWith payload CRLF")
  case True
  have "length (textEncode payload) \<le> 64"
    using assms(2) by (simp add: textEncode_CRLF)
  with True assms(1) show ?thesis
    by (simp add: buildPacket_def parsePacket_textEncode)
next
  case False
  have "parsePacket (textEncode (payload @ CRLF)) = trim payload"
    using assms(1) by (simp add: parsePacket_textEncode isWellFormed_CRLF trim_CRLF)
  with False assms(2) show ?thesis
    by (simp add: buildPacket_def)
qed

theorem buildPacket_parsePacket_witness:
  "isWellFormed [0x24, 0xD83D, 0xDE00, 0xE9, 0x20]
   \<and> length (textEncode ([0x24, 0xD83D, 0xDE00, 0xE9, 0x20] @ CRLF)) \<le> 64
   \<and> buildPacket [0x24, 0xD83D, 0xDE00, 0xE9, 0x20]
       = Inr [0x24, 0xF0, 0x9F, 0x98, 0x80, 0xC3, 0xA9, 0x20, 0x0D, 0x0A]
   \<and> parsePacket [0x24, 0xF0, 0x9F, 0x98, 0x80, 0xC3, 0xA9, 0x20, 0x0D, 0x0A]
       = [0x24, 0xD83D, 0xDE00, 0xE9]"
proof -
  have w: "isWellFormed [0x24, 0xD83D, 0xDE00, 0xE9, 0x20]"
    by (simp add: isHighSurrogate_def isLowSurrogate_def)
  have e: "textEncode ([0x24, 0xD83D, 0xDE00, 0xE9, 0x20] @ CRLF)
      = [0x24, 0xF0, 0x9F, 0x98, 0x80, 0xC3, 0xA9, 0x20, 0x0D, 0x0A]"
    by (simp add: str_defs utf_defs)
  have l: "length (textEncode ([0x24, 0xD83D, 0xDE00, 0xE9, 0x20] @ CRLF)) \<le> 64"
    by (simp only: e) simp
  have n: "\<not> endsWith [0x24, 0xD83D, 0xDE00, 0xE9, 0x20] CRLF"
    by (simp add: str_defs)
  have t: "trim [0x24, 0xD83D, 0xDE00, 0xE9, 0x20] = [0x24, 0xD83D, 0xDE00, 0xE9]"
    by (simp add: str_defs)
  show ?thesis
    using buildPacket_parsePacket [OF w l] w l
    by (simp only: n if_False e t)
qed

theorem lone_surrogate_counterexample:
  "length (textEncode ([0x24, 0xD83D] @ CRLF)) \<le> 64
   \<and> buildPacket [0x24, 0xD83D] = Inr [0x24, 0xEF, 0xBF, 0xBD, 0x0D, 0x0A]
   \<and> parsePacket [0x24, 0xEF, 0xBF, 0xBD, 0x0D, 0x0A] = [0x24, 0xFFFD]
   \<and> trim [0x24, 0xD83D] = [0x24, 0xD83D]
   \<and> [0x24, 0xFFFD] \<noteq> [0x24, 0xD83D :: code_unit]"
  by (simp add: str_defs utf_defs utf8Decode.simps)

text \<open>
  Claim C2. When the packet, that is the UTF-8 encoding of the payload with CRLF appended
  unless the payload already ends with it, has more than 64 bytes, \<open>buildPacket\<close> returns
  the oversize error with the length it logged, and no packet: nothing is truncated, and
  \<open>sendCommand\<close> has nothing to write for a command whose payload it is.
\<close>

theorem buildPacket_oversize:
  "64 < length (textEncode (if endsWith payload CRLF then payload else payload @ CRLF)) \<Longrightarrow>
   buildPacket payload
     = Inl (PayloadTooLong
         (length (textEncode (if endsWith payload CRLF then payload else payload @ CRLF))))
   \<and> (\<forall>packet. buildPacket payload \<noteq> Inr packet)
   \<and> (\<forall>packet. payload = js ''$'' @ command \<longrightarrow> sendCommand connected command \<noteq> Inr packet)"
proof -
  assume "64 < length (textEncode (if endsWith payload CRLF then payload else payload @ CRLF))"
  then have b: "buildPacket payload
     = Inl (PayloadTooLong
         (length (textEncode (if endsWith payload CRLF then payload else payload @ CRLF))))"
    by (cases "endsWith payload CRLF") (simp_all add: buildPacket_def Let_def)
  have "sendCommand connected command \<noteq> Inr packet" if "payload = js ''$'' @ command" for packet
    using b unfolding that by (cases connected) (simp_all add: sendCommand_def)
  with b show ?thesis
    by simp
qed

theorem buildPacket_oversize_witness:
  "64 < length (textEncode
      (if endsWith (js ''$MAN:START:100,5,10,L1,L2,L3,L4,L5,L6,L7,L8,R1,R2,R3,R4,R5,R6,R7'') CRLF
       then js ''$MAN:START:100,5,10,L1,L2,L3,L4,L5,L6,L7,L8,R1,R2,R3,R4,R5,R6,R7''
       else js ''$MAN:START:100,5,10,L1,L2,L3,L4,L5,L6,L7,L8,R1,R2,R3,R4,R5,R6,R7'' @ CRLF))
   \<and> buildPacket (js ''$MAN:START:100,5,10,L1,L2,L3,L4,L5,L6,L7,L8,R1,R2,R3,R4,R5,R6,R7'')
       = Inl (PayloadTooLong 66)"
  using buildPacket_oversize
    [of "js ''$MAN:START:100,5,10,L1,L2,L3,L4,L5,L6,L7,L8,R1,R2,R3,R4,R5,R6,R7''"]
  by (simp add: str_defs utf_defs)

section \<open>Properties of the command builder\<close>

text \<open>
  Claim C3, as amended. \<open>sendConnectDevice\<close> trims and uppercases the MAC field and strips
  \<open>:\<close> and \<open>-\<close>; \<open>5C:F2:86:47:73:59\<close> and \<open>5cf286477359\<close> with location \<open>L1\<close> both give the
  command \<open>DM:CONN:5CF286477359:L1\<close>. An input that reduces to exactly 12 characters of
  \<open>0-9A-F\<close> gives the command built from them; every other input fails, with the invalid-MAC
  alert when something is left after trimming and uppercasing, and with the alert for a
  missing MAC when nothing is.
\<close>

theorem connect_command:
  "sendConnectDevice ucd (js ''5C:F2:86:47:73:59'') (js ''L1'') = Inr (js ''DM:CONN:5CF286477359:L1'')
   \<and> sendConnectDevice ucd (js ''5cf286477359'') (js ''L1'') = Inr (js ''DM:CONN:5CF286477359:L1'')
   \<and> (length (removeSeparators (toUpperCase ucd (trim connMac))) = 12
        \<and> allUpperHex (removeSeparators (toUpperCase ucd (trim connMac))) \<longrightarrow>
        sendConnectDevice ucd connMac location
          = Inr (js ''DM:CONN:'' @ removeSeparators (toUpperCase ucd (trim connMac))
                   @ js '':'' @ location))
   \<and> (\<not> (length (removeSeparators (toUpperCase ucd (trim connMac))) = 12
           \<and> allUpperHex (removeSeparators (toUpperCase ucd (trim connMac)))) \<longrightarrow>
        sendConnectDevice ucd connMac location
          = (if toUpperCase ucd (trim connMac) = [] then Inl MissingMac else Inl InvalidMac))"
proof -
  have a: "sendConnectDevice ucd (js ''5C:F2:86:47:73:59'') (js ''L1'')
      = Inr (js ''DM:CONN:5CF286477359:L1'')"
    by (simp add: str_defs cmd_defs)
  have b: "sendConnectDevice ucd (js ''5cf286477359'') (js ''L1'')
      = Inr (js ''DM:CONN:5CF286477359:L1'')"
    by (simp add: str_defs cmd_defs)
  have c: "removeSeparators [] = []"
    by (simp add: removeSeparators_def)
  show ?thesis
    unfolding a b by (auto simp: sendConnectDevice_def Let_def c)
qed

theorem connect_command_witness:
  "length (removeSeparators (toUpperCase id (trim (js '' 5c-f2-86-47-73-59 '')))) = 12
   \<and> allUpperHex (removeSeparators (toUpperCase id (trim (js '' 5c-f2-86-47-73-59 ''))))
   \<and> sendConnectDevice id (js '' 5c-f2-86-47-73-59 '') (js ''R2'') = Inr (js ''DM:CONN:5CF286477359:R2'')
   \<and> \<not> (length (removeSeparators (toUpperCase id (trim (js ''5CF2864773'')))) = 12
          \<and> allUpperHex (removeSeparators (toUpperCase id (trim (js ''5CF2864773'')))))
   \<and> sendConnectDevice id (js ''5CF2864773'') (js ''L1'') = Inl InvalidMac
   \<and> sendConnectDevice id (js ''5CF28647735G'') (js ''L1'') = Inl InvalidMac"
proof -
  have r1: "removeSeparators (toUpperCase id (trim (js '' 5c-f2-86-47-73-59 ''))) = js ''5CF286477359''"
    by (simp add: str_defs cmd_defs)
  have r2: "removeSeparators (toUpperCase id (trim (js ''5CF2864773''))) = js ''5CF2864773''"
    "toUpperCase id (trim (js ''5CF2864773'')) \<noteq> []"
    by (simp_all add: str_defs cmd_defs)
  have r3: "removeSeparators (toUpperCase id (trim (js ''5CF28647735G''))) = js ''5CF28647735G''"
    "toUpperCase id (trim (js ''5CF28647735G'')) \<noteq> []"
    by (simp_all add: str_defs cmd_defs)
  have h: "length (js ''5CF286477359'') = 12" "allUpperHex (js ''5CF286477359'')"
    "length (js ''5CF2864773'') \<noteq> 12" "\<not> allUpperHex (js ''5CF28647735G'')"
    "js ''DM:CONN:'' @ js ''5CF286477359'' @ js '':'' @ js ''R2'' = js ''DM:CONN:5CF286477359:R2''"
    by (simp_all add: js_def allUpperHex_def isUpperHex_def)
  show ?thesis
    using connect_command [of id "js '' 5c-f2-86-47-73-59 ''" "js ''R2''"]
      connect_command [of id "js ''5CF2864773''" "js ''L1''"]
      connect_command [of id "js ''5CF28647735G''" "js ''L1''"]
    by (simp only: r1 r2 r3 h) simp
qed

theorem connect_blank_counterexample:
  "sendConnectDevice id (js '''') (js ''L1'') = Inl MissingMac
   \<and> sendConnectDevice id (js ''   '') (js ''L1'') = Inl MissingMac
   \<and> Inl MissingMac \<noteq> (Inl InvalidMac :: error + jsstring)"
  by (simp add: str_defs cmd_defs)

section \<open>Properties of the receive path\<close>

text \<open>
  Claim C10. A buffer that decodes to white space only, the empty buffer included, is parsed
  to the empty string, and \<open>handleNotification\<close> only logs the parse failure: the status
  display, the scan registry, the evaluation history and the console stay as they were.
\<close>

theorem blank_buffer_ignored:
  "\<forall>c \<in> set (textDecode buffer). isWhiteSpace c \<Longrightarrow>
   parsePacket buffer = []
   \<and> handleNotification timestamp evalTimestamp buffer s
       = s\<lparr>receivedLog := receivedLog s @ [LogParseFailed]\<rparr>"
  by (simp add: parsePacket_def handleNotification_def trim_all_white)

theorem blank_buffer_ignored_witness:
  "list_all isWhiteSpace (textDecode [])
   \<and> list_all isWhiteSpace (textDecode [0x20, 0x09, 0x0D, 0x0A])
   \<and> parsePacket [0x20, 0x09, 0x0D, 0x0A] = []
   \<and> handleNotification (js ''10:00:00'') (js ''10:00:00'') [] (initial (Success (js ''#OK'')))
       = \<lparr>scanResults = [], evalDataRows = [], deviceStatus = Success (js ''#OK''),
          receivedLog = [LogParseFailed], console = []\<rparr>"
  using blank_buffer_ignored [of "[]" "js ''10:00:00''" "js ''10:00:00''" "initial (Success (js ''#OK''))"]
    blank_buffer_ignored [of "[0x20, 0x09, 0x0D, 0x0A]" "js ''10:00:00''" "js ''10:00:00''" "initial Blank"]
  by (simp add: str_defs utf_defs initial_def list_all_iff)

text \<open>
  Claim C9. A payload that starts with \<open>#DM:SCAN:FOUND:\<close> and has fewer than three comma
  fields after it is logged, and the status display is set to the empty string: no template
  is rendered, neither the scan one nor the one for other messages, and the scan registry,
  the evaluation history and the console stay as they were.
\<close>

theorem short_scan_line_ignored:
  assumes "parsePacket buffer = payload"
    and "startsWith payload (js ''#DM:SCAN:FOUND:'')"
    and "length (splitStr 0x2C (substring payload (length (js ''#DM:SCAN:FOUND:'')))) < 3"
  shows "handleNotification timestamp evalTimestamp buffer s
    = s\<lparr>receivedLog := receivedLog s @ [LogPayload timestamp payload], deviceStatus := Blank\<rparr>"
proof -
  from assms(2) obtain r where r: "payload = js ''#DM:SCAN:FOUND:'' @ r"
    using startsWithE by blast
  have "updateDeviceStatus payload s' = s'\<lparr>deviceStatus := Blank\<rparr>" for s'
    using assms(2,3) unfolding r
    by (simp add: updateDeviceStatus_def scan_prefix_excludes Let_def)
  then show ?thesis
    using assms(1) unfolding r
    by (simp add: handleNotification_def scan_prefix_excludes Let_def)
qed

theorem short_scan_line_ignored_witness:
  "parsePacket (textEncode (js ''#DM:SCAN:FOUND:AABBCCDDEEFF,Sensor1'' @ CRLF))
     = js ''#DM:SCAN:FOUND:AABBCCDDEEFF,Sensor1''
   \<and> startsWith (js ''#DM:SCAN:FOUND:AABBCCDDEEFF,Sensor1'') (js ''#DM:SCAN:FOUND:'')
   \<and> length (splitStr 0x2C (substring (js ''#DM:SCAN:FOUND:AABBCCDDEEFF,Sensor1'')
        (length (js ''#DM:SCAN:FOUND:'')))) < 3
   \<and> handleNotification (js ''10:00:00'') (js ''10:00:00'')
        (textEncode (js ''#DM:SCAN:FOUND:AABBCCDDEEFF,Sensor1'' @ CRLF)) (initial (Success (js ''#OK'')))
     = \<lparr>scanResults = [], evalDataRows = [], deviceStatus = Blank,
        receivedLog = [LogPayload (js ''10:00:00'') (js ''#DM:SCAN:FOUND:AABBCCDDEEFF,Sensor1'')],
        console = []\<rparr>"
proof -
  have p: "parsePacket (textEncode (js ''#DM:SCAN:FOUND:AABBCCDDEEFF,Sensor1'' @ CRLF))
     = js ''#DM:SCAN:FOUND:AABBCCDDEEFF,Sensor1''"
    by (simp add: str_defs utf_defs)
  have q: "startsWith (js ''#DM:SCAN:FOUND:AABBCCDDEEFF,Sensor1'') (js ''#DM:SCAN:FOUND:'')"
    by (simp add: js_def)
  have l: "length (splitStr 0x2C (substring (js ''#DM:SCAN:FOUND:AABBCCDDEEFF,Sensor1'')
        (length (js ''#DM:SCAN:FOUND:'')))) < 3"
    by (simp add: js_def substring_def)
  show ?thesis
    using short_scan_line_ignored [OF p q l, of "js ''10:00:00''" "js ''10:00:00''"
        "initial (Success (js ''#OK''))"] p q l
    by (simp add: initial_def)
qed

text \<open>
  Claim C8, as amended. For a message that contains \<open>INIT_OK\<close> or \<open>SCAN_STARTED\<close> and
  starts with neither \<open>#BLE:RAW:\<close> nor \<open>#DM:SCAN:FOUND:\<close>, \<open>updateDeviceStatus\<close> renders
  the success template, empties the scan registry and changes nothing else. On the receive
  path the registry is emptied and the success template rendered as well, and the
  evaluation history is the one before for every such payload that does not start with
  \<open>#EVAL:STOP:STOP_OK:\<close>; for one that does, the evaluation handler, a separate step of
  \<open>handleNotification\<close>, still runs.
\<close>

theorem init_ok_clears_registry:
  assumes "includesStr message (js ''INIT_OK'') \<or> includesStr message (js ''SCAN_STARTED'')"
    and "\<not> startsWith message (js ''#BLE:RAW:'')"
    and "\<not> startsWith message (js ''#DM:SCAN:FOUND:'')"
  shows "updateDeviceStatus message s = s\<lparr>scanResults := [], deviceStatus := Success message\<rparr>
    \<and> evalDataRows (updateDeviceStatus message s) = evalDataRows s
    \<and> (parsePacket buffer = message \<longrightarrow>
         scanResults (handleNotification timestamp evalTimestamp buffer s) = []
         \<and> deviceStatus (handleNotification timestamp evalTimestamp buffer s) = Success message
         \<and> (\<not> startsWith message (js ''#EVAL:STOP:STOP_OK:'') \<longrightarrow>
              evalDataRows (handleNotification timestamp evalTimestamp buffer s) = evalDataRows s))"
proof -
  have u: "updateDeviceStatus message s' = s'\<lparr>scanResults := [], deviceStatus := Success message\<rparr>"
    for s'
    using assms by (simp add: updateDeviceStatus_def clearScanResults_def)
  have ne: "message \<noteq> []"
    using assms(1) includesStr_nonempty [of message] by (auto simp: js_def)
  show ?thesis
    using ne by (simp add: handleNotification_def Let_def u handleEvalStopData_frame)
qed

theorem init_ok_clears_registry_witness:
  "(includesStr (js ''#DM:SCAN:INIT_OK'') (js ''INIT_OK'')
      \<or> includesStr (js ''#DM:SCAN:INIT_OK'') (js ''SCAN_STARTED''))
   \<and> \<not> startsWith (js ''#DM:SCAN:INIT_OK'') (js ''#BLE:RAW:'')
   \<and> \<not> startsWith (js ''#DM:SCAN:INIT_OK'') (js ''#DM:SCAN:FOUND:'')
   \<and> parsePacket (textEncode (js ''#DM:SCAN:INIT_OK'' @ CRLF)) = js ''#DM:SCAN:INIT_OK''
   \<and> \<not> startsWith (js ''#DM:SCAN:INIT_OK'') (js ''#EVAL:STOP:STOP_OK:'')
   \<and> handleNotification (js ''10:00:00'') (js ''10:00:01'')
        (textEncode (js ''#DM:SCAN:INIT_OK'' @ CRLF))
        \<lparr>scanResults = [\<lparr>mac = js ''AABBCCDDEEFF'', rssi = Num (- 65), name = js ''Sensor1''\<rparr>],
         evalDataRows = [Back (js ''09:59:00'') (Num 12) (Num 14) (Num 5)],
         deviceStatus = Blank, receivedLog = [], console = []\<rparr>
     = \<lparr>scanResults = [],
        evalDataRows = [Back (js ''09:59:00'') (Num 12) (Num 14) (Num 5)],
        deviceStatus = Success (js ''#DM:SCAN:INIT_OK''),
        receivedLog = [LogPayload (js ''10:00:00'') (js ''#DM:SCAN:INIT_OK'')], console = []\<rparr>"
proof -
  have a: "includesStr (js ''#DM:SCAN:INIT_OK'') (js ''INIT_OK'')
      \<or> includesStr (js ''#DM:SCAN:INIT_OK'') (js ''SCAN_STARTED'')"
    by (simp add: js_def)
  have b: "\<not> startsWith (js ''#DM:SCAN:INIT_OK'') (js ''#BLE:RAW:'')"
    by (simp add: js_def)
  have c: "\<not> startsWith (js ''#DM:SCAN:INIT_OK'') (js ''#DM:SCAN:FOUND:'')"
    by (simp add: js_def)
  have p: "parsePacket (textEncode (js ''#DM:SCAN:INIT_OK'' @ CRLF)) = js ''#DM:SCAN:INIT_OK''"
    by (simp add: str_defs utf_defs)
  have e: "\<not> startsWith (js ''#DM:SCAN:INIT_OK'') (js ''#EVAL:STOP:STOP_OK:'')"
    by (simp add: js_def)
  have m: "\<not> startsWith (js ''#DM:SCAN:INIT_OK'') (js ''#MAN:TIMEOUT'')"
    by (simp add: js_def)
  have n: "js ''#DM:SCAN:INIT_OK'' \<noteq> []"
    by (simp add: js_def)
  show ?thesis
    using init_ok_clears_registry [OF a b c,
        of "\<lparr>scanResults = [\<lparr>mac = js ''AABBCCDDEEFF'', rssi = Num (- 65), name = js ''Sensor1''\<rparr>],
         evalDataRows = [Back (js ''09:59:00'') (Num 12) (Num 14) (Num 5)],
         deviceStatus = Blank, receivedLog = [LogPayload (js ''10:00:00'') (js ''#DM:SCAN:INIT_OK'')],
         console = []\<rparr>"
        "textEncode (js ''#DM:SCAN:INIT_OK'' @ CRLF)" "js ''10:00:00''" "js ''10:00:01''"]
      a b c p e m n
    by (simp add: handleNotification_def Let_def)
qed

theorem init_ok_eval_line_counterexample:
  "includesStr (js ''#EVAL:STOP:STOP_OK:INIT_OK,1,2'') (js ''INIT_OK'')
   \<and> \<not> startsWith (js ''#EVAL:STOP:STOP_OK:INIT_OK,1,2'') (js ''#BLE:RAW:'')
   \<and> \<not> startsWith (js ''#EVAL:STOP:STOP_OK:INIT_OK,1,2'') (js ''#DM:SCAN:FOUND:'')
   \<and> handleNotification (js ''10:00:00'') (js ''10:00:01'')
        (textEncode (js ''#EVAL:STOP:STOP_OK:INIT_OK,1,2'' @ CRLF))
        \<lparr>scanResults = [\<lparr>mac = js ''AABBCCDDEEFF'', rssi = Num (- 65), name = js ''Sensor1''\<rparr>],
         evalDataRows = [], deviceStatus = Blank, receivedLog = [], console = []\<rparr>
     = \<lparr>scanResults = [],
        evalDataRows = [Back (js ''10:00:01'') NaN (Num 1) (Num 2)],
        deviceStatus = Success (js ''#EVAL:STOP:STOP_OK:INIT_OK,1,2''),
        receivedLog = [LogPayload (js ''10:00:00'') (js ''#EVAL:STOP:STOP_OK:INIT_OK,1,2''),
                       LogEvalAdded],
        console = []\<rparr>"
  by (simp add: str_defs utf_defs cls_defs Let_def)

text \<open>
  Claim C4, as amended. For a payload \<open>#DM:SCAN:FOUND:\<close> followed by three or more comma
  fields, whatever the third field holds: the scan template is rendered and a record for
  the first field is inserted or updated, its signal strength being \<open>parseInt\<close> of the third
  field. That is \<open>NaN\<close> exactly when no digit follows the leading white space, sign and
  radix prefix of the field, and otherwise the double nearest to the integer read.
\<close>

theorem scan_found_any_rssi:
  assumes "parsePacket buffer = js ''#DM:SCAN:FOUND:'' @ data"
    and "splitStr 0x2C data = m # n # r # rest"
  shows "handleNotification timestamp evalTimestamp buffer s
      = (addScanResult m (parseInt r) n
          (s\<lparr>receivedLog := receivedLog s
              @ [LogPayload timestamp (js ''#DM:SCAN:FOUND:'' @ data)]\<rparr>))
          \<lparr>deviceStatus := ScanFound n m\<rparr>
    \<and> m \<in> mac ` set (scanResults (handleNotification timestamp evalTimestamp buffer s))
    \<and> (m \<notin> mac ` set (scanResults s) \<longrightarrow>
          scanResults (handleNotification timestamp evalTimestamp buffer s)
            = scanResults s @ [\<lparr>mac = m, rssi = parseInt r, name = n\<rparr>])
    \<and> (parseInt r = NaN \<longleftrightarrow> snd (snd (parseIntDigits r)) = [])"
proof -
  have u: "updateDeviceStatus (js ''#DM:SCAN:FOUND:'' @ data) s'
      = (addScanResult m (parseInt r) n s')\<lparr>deviceStatus := ScanFound n m\<rparr>" for s'
    using assms(2)
    by (simp add: updateDeviceStatus_def scan_prefix_excludes startsWith_append substring_def Let_def)
  have h: "handleNotification timestamp evalTimestamp buffer s
      = (addScanResult m (parseInt r) n
          (s\<lparr>receivedLog := receivedLog s
              @ [LogPayload timestamp (js ''#DM:SCAN:FOUND:'' @ data)]\<rparr>))
          \<lparr>deviceStatus := ScanFound n m\<rparr>"
    using assms(1) by (simp add: handleNotification_def Let_def u scan_prefix_excludes)
  have a: "scanResults (addScanResult m (parseInt r) n s') 
      = scanResults s' @ [\<lparr>mac = m, rssi = parseInt r, name = n\<rparr>]"
    if "m \<notin> mac ` set (scanResults s')" for s'
  proof -
    from that have "find (\<lambda>x. mac x = m) (scanResults s') = None"
      by (simp add: find_mac_None)
    then show ?thesis by (simp add: addScanResult_def)
  qed
  show ?thesis
    using addScanResult_member [of m "parseInt r" n] a parseInt_NaN_iff [of r] by (simp add: h)
qed

theorem scan_found_any_rssi_witness:
  "parsePacket (textEncode (js ''#DM:SCAN:FOUND:AABBCCDDEEFF,Sensor1,-65'' @ CRLF))
     = js ''#DM:SCAN:FOUND:'' @ js ''AABBCCDDEEFF,Sensor1,-65''
   \<and> splitStr 0x2C (js ''AABBCCDDEEFF,Sensor1,-65'')
     = js ''AABBCCDDEEFF'' # js ''Sensor1'' # js ''-65'' # []
   \<and> js ''AABBCCDDEEFF'' \<notin> mac ` set (scanResults (initial Blank))
   \<and> scanResults (handleNotification (js ''10:00:00'') (js ''10:00:00'')
        (textEncode (js ''#DM:SCAN:FOUND:AABBCCDDEEFF,Sensor1,-65'' @ CRLF)) (initial Blank))
     = [\<lparr>mac = js ''AABBCCDDEEFF'', rssi = Num (- 65), name = js ''Sensor1''\<rparr>]
   \<and> parsePacket (textEncode (js ''#DM:SCAN:FOUND:AABBCCDDEEFF,Sensor1,9007199254740993'' @ CRLF))
     = js ''#DM:SCAN:FOUND:'' @ js ''AABBCCDDEEFF,Sensor1,9007199254740993''
   \<and> splitStr 0x2C (js ''AABBCCDDEEFF,Sensor1,9007199254740993'')
     = js ''AABBCCDDEEFF'' # js ''Sensor1'' # js ''9007199254740993'' # []
   \<and> scanResults (handleNotification (js ''10:00:00'') (js ''10:00:00'')
        (textEncode (js ''#DM:SCAN:FOUND:AABBCCDDEEFF,Sensor1,9007199254740993'' @ CRLF))
        (initial Blank))
     = [\<lparr>mac = js ''AABBCCDDEEFF'', rssi = Num 9007199254740992, name = js ''Sensor1''\<rparr>]
   \<and> parseInt (js ''-0'') = NegZero"
proof -
  have p: "parsePacket (textEncode (js ''#DM:SCAN:FOUND:AABBCCDDEEFF,Sensor1,-65'' @ CRLF))
     = js ''#DM:SCAN:FOUND:'' @ js ''AABBCCDDEEFF,Sensor1,-65''"
    by (simp add: str_defs utf_defs)
  have q: "splitStr 0x2C (js ''AABBCCDDEEFF,Sensor1,-65'')
     = js ''AABBCCDDEEFF'' # js ''Sensor1'' # js ''-65'' # []"
    by (simp add: js_def)
  have i: "parseInt (js ''-65'') = Num (- 65)"
    by (simp add: str_defs)
  have p': "parsePacket (textEncode
      (js ''#DM:SCAN:FOUND:AABBCCDDEEFF,Sensor1,9007199254740993'' @ CRLF))
     = js ''#DM:SCAN:FOUND:'' @ js ''AABBCCDDEEFF,Sensor1,9007199254740993''"
    by (simp add: str_defs utf_defs)
  have q': "splitStr 0x2C (js ''AABBCCDDEEFF,Sensor1,9007199254740993'')
     = js ''AABBCCDDEEFF'' # js ''Sensor1'' # js ''9007199254740993'' # []"
    by (simp add: js_def)
  have i': "parseInt (js ''9007199254740993'') = Num 9007199254740992"
    by (simp add: str_defs)
  have z: "parseInt (js ''-0'') = NegZero"
    by (simp add: str_defs)
  have n: "js ''AABBCCDDEEFF'' \<notin> mac ` set (scanResults (initial Blank))"
    by (simp add: initial_def)
  from scan_found_any_rssi [OF p q, of "js ''10:00:00''" "js ''10:00:00''" "initial Blank"] n
  have "scanResults (handleNotification (js ''10:00:00'') (js ''10:00:00'')
        (textEncode (js ''#DM:SCAN:FOUND:AABBCCDDEEFF,Sensor1,-65'' @ CRLF)) (initial Blank))
     = scanResults (initial Blank)
        @ [\<lparr>mac = js ''AABBCCDDEEFF'', rssi = parseInt (js ''-65''), name = js ''Sensor1''\<rparr>]"
    by blast
  then have a: "scanResults (handleNotification (js ''10:00:00'') (js ''10:00:00'')
        (textEncode (js ''#DM:SCAN:FOUND:AABBCCDDEEFF,Sensor1,-65'' @ CRLF)) (initial Blank))
     = [\<lparr>mac = js ''AABBCCDDEEFF'', rssi = Num (- 65), name = js ''Sensor1''\<rparr>]"
    by (simp only: i) (simp add: initial_def)
  from scan_found_any_rssi [OF p' q', of "js ''10:00:00''" "js ''10:00:00''" "initial Blank"] n
  have "scanResults (handleNotification (js ''10:00:00'') (js ''10:00:00'')
        (textEncode (js ''#DM:SCAN:FOUND:AABBCCDDEEFF,Sensor1,9007199254740993'' @ CRLF))
        (initial Blank))
     = scanResults (initial Blank)
        @ [\<lparr>mac = js ''AABBCCDDEEFF'', rssi = parseInt (js ''9007199254740993''),
             name = js ''Sensor1''\<rparr>]"
    by blast
  then have b: "scanResults (handleNotification (js ''10:00:00'') (js ''10:00:00'')
        (textEncode (js ''#DM:SCAN:FOUND:AABBCCDDEEFF,Sensor1,9007199254740993'' @ CRLF))
        (initial Blank))
     = [\<lparr>mac = js ''AABBCCDDEEFF'', rssi = Num 9007199254740992, name = js ''Sensor1''\<rparr>]"
    by (simp only: i') (simp add: initial_def)
  from p q n a p' q' b z show ?thesis by blast
qed

theorem malformed_rssi_counterexample:
  "scanResults (handleNotification (js ''10:00:00'') (js ''10:00:00'')
      (textEncode (js ''#DM:SCAN:FOUND:AABBCCDDEEFF,Sensor1,abc'' @ CRLF)) (initial Blank))
     = [\<lparr>mac = js ''AABBCCDDEEFF'', rssi = NaN, name = js ''Sensor1''\<rparr>]
   \<and> deviceStatus (handleNotification (js ''10:00:00'') (js ''10:00:00'')
      (textEncode (js ''#DM:SCAN:FOUND:AABBCCDDEEFF,Sensor1,abc'' @ CRLF)) (initial Blank))
     = ScanFound (js ''Sensor1'') (js ''AABBCCDDEEFF'')"
  by (simp add: str_defs utf_defs cls_defs Let_def)




text \<open>
  Claim C7, as amended. The receive path is total. A payload that is empty after trimming
  is logged as a parse failure and classified no further. Every other payload sets the
  status display to the one template \<open>updateDeviceStatus\<close> selects for it, which is the one
  for other messages when the payload neither starts with \<open>#\<close> nor contains a status token;
  the display is left empty, with no template at all, exactly for the payloads that start
  with \<open>#DM:SCAN:FOUND:\<close> and have fewer than three comma fields.
\<close>

theorem classification_total:
  "(parsePacket buffer = [] \<longrightarrow>
      handleNotification timestamp evalTimestamp buffer s
        = s\<lparr>receivedLog := receivedLog s @ [LogParseFailed]\<rparr>)
   \<and> (parsePacket buffer \<noteq> [] \<longrightarrow>
      deviceStatus (handleNotification timestamp evalTimestamp buffer s)
        = deviceStatus (updateDeviceStatus (parsePacket buffer) s))
   \<and> (deviceStatus (updateDeviceStatus message s) = Blank \<longleftrightarrow>
        \<not> startsWith message (js ''#BLE:RAW:'') \<and> startsWith message (js ''#DM:SCAN:FOUND:'')
        \<and> length (splitStr 0x2C (substring message (length (js ''#DM:SCAN:FOUND:'')))) < 3)
   \<and> (\<not> startsWith message (js ''#'') \<and> \<not> containsStatusToken message \<longrightarrow>
        updateDeviceStatus message s = s\<lparr>deviceStatus := Other message\<rparr>)"
proof -
  have d: "deviceStatus (updateDeviceStatus m (s\<lparr>receivedLog := l\<rparr>))
      = deviceStatus (updateDeviceStatus m s)" for m l
    by (simp add: updateDeviceStatus_def addScanResult_def clearScanResults_def Let_def
        split: option.split)
  have "deviceStatus (handleNotification timestamp evalTimestamp buffer s)
        = deviceStatus (updateDeviceStatus (parsePacket buffer) s)"
    if "parsePacket buffer \<noteq> []"
    using that by (simp add: handleNotification_def Let_def handleEvalStopData_frame d)
  then show ?thesis
    using updateDeviceStatus_Blank [of message s] updateDeviceStatus_Other [of message s]
    by (simp add: handleNotification_def)
qed

theorem classification_total_witness:
  "parsePacket (textEncode (js ''hello'' @ CRLF)) \<noteq> []
   \<and> \<not> startsWith (js ''hello'') (js ''#'') \<and> \<not> containsStatusToken (js ''hello'')
   \<and> parsePacket [] = []
   \<and> deviceStatus (handleNotification (js ''10:00:00'') (js ''10:00:01'')
        (textEncode (js ''hello'' @ CRLF)) (initial Blank)) = Other (js ''hello'')
   \<and> deviceStatus (handleNotification (js ''10:00:00'') (js ''10:00:01'') []
        (initial (Success (js ''#OK'')))) = Success (js ''#OK'')"
proof -
  have p: "parsePacket (textEncode (js ''hello'' @ CRLF)) = js ''hello''"
    by (simp add: str_defs utf_defs)
  have n: "js ''hello'' \<noteq> []"
    by (simp add: js_def)
  have h: "\<not> startsWith (js ''hello'') (js ''#'') \<and> \<not> containsStatusToken (js ''hello'')"
    by (simp add: js_def containsStatusToken_def)
  have e: "parsePacket [] = []"
    by (simp add: str_defs utf_defs)
  have "deviceStatus (handleNotification (js ''10:00:00'') (js ''10:00:01'')
        (textEncode (js ''hello'' @ CRLF)) (initial Blank)) = Other (js ''hello'')"
    using classification_total [of "textEncode (js ''hello'' @ CRLF)" "js ''10:00:00''"
        "js ''10:00:01''" "initial Blank" "js ''hello''"] p n h
    by simp
  moreover have "deviceStatus (handleNotification (js ''10:00:00'') (js ''10:00:01'') []
      (initial (Success (js ''#OK'')))) = Success (js ''#OK'')"
    using classification_total [of "[]" "js ''10:00:00''" "js ''10:00:01''"
        "initial (Success (js ''#OK''))" "[]"] e
    by (simp add: initial_def)
  ultimately show ?thesis
    using p n h e by simp
qed

theorem classification_no_variant_counterexample:
  "deviceStatus (updateDeviceStatus (js ''#DM:SCAN:FOUND:AABBCCDDEEFF'')
      (initial (Other (js ''hello'')))) = Blank
   \<and> deviceStatus (handleNotification (js ''10:00:00'') (js ''10:00:01'')
        (textEncode (js ''#DM:SCAN:FOUND:AABBCCDDEEFF'' @ CRLF)) (initial (Other (js ''hello''))))
      = Blank"
  by (simp add: str_defs utf_defs cls_defs Let_def)

end
